theory Spec2Isabelle
  imports Main "HOL-Library.Word"
begin

section \<open>Data model\<close>

text \<open>
  The program works on \<^verbatim>\<open>using Matrix = std::vector<std::vector<int>>\<close>.
  An \<^verbatim>\<open>int\<close> is a 32-bit two's complement value and a \<^verbatim>\<open>long long\<close> a 64-bit
  one. Signed overflow is undefined in C++; the model takes the wrapped result, which
  is what the machine instruction computes. A vector is a list; its \<^verbatim>\<open>size()\<close> is
  the length of the list, and sizes are taken to be below \<open>2 ^ 31\<close>, so that the
  conversion in \<^verbatim>\<open>int n = matrix.size()\<close> keeps the value. Index parameters of type
  \<^verbatim>\<open>int\<close> are integers.
\<close>

type_synonym cint = "32 word"
type_synonym clonglong = "64 word"
type_synonym Matrix = "cint list list"

text \<open>
  What stops a function before its normal end: the \<^verbatim>\<open>std::runtime_error\<close> thrown by
  \<^verbatim>\<open>addMatrices\<close> and \<^verbatim>\<open>multiplyMatrices\<close>, an access \<^verbatim>\<open>v[i]\<close> with
  \<open>i\<close> outside the vector (undefined behaviour in C++), and the \<^verbatim>\<open>return false\<close>
  of \<^verbatim>\<open>loadMatrices\<close>.
\<close>

datatype error = DimensionMismatch | OutOfBounds | LoadFailed

definition bindE :: "'e + 'a \<Rightarrow> ('a \<Rightarrow> 'e + 'b) \<Rightarrow> 'e + 'b" where
  "bindE m f = (case m of Inl e \<Rightarrow> Inl e | Inr x \<Rightarrow> f x)"

text \<open>\<^verbatim>\<open>matrix[i]\<close>, \<^verbatim>\<open>matrix[i][j]\<close> read and \<^verbatim>\<open>matrix[i][j] = v\<close>.\<close>

definition row :: "'a list list \<Rightarrow> nat \<Rightarrow> error + 'a list" where
  "row M i = (if i < length M then Inr (M ! i) else Inl OutOfBounds)"

definition elem :: "'a list list \<Rightarrow> nat \<Rightarrow> nat \<Rightarrow> error + 'a" where
  "elem M i j =
     bindE (row M i) (\<lambda>r. if j < length r then Inr (r ! j) else Inl OutOfBounds)"

definition store :: "'a list list \<Rightarrow> nat \<Rightarrow> nat \<Rightarrow> 'a \<Rightarrow> error + 'a list list" where
  "store M i j v =
     bindE (row M i) (\<lambda>r. if j < length r then Inr (M[i := r[j := v]]) else Inl OutOfBounds)"

text \<open>
  \<^verbatim>\<open>for (int i = i0; i < n; ++i) body\<close>, where the body updates the state \<open>s\<close> and
  may stop the function.
\<close>

function for_loop :: "nat \<Rightarrow> nat \<Rightarrow> (nat \<Rightarrow> 's \<Rightarrow> error + 's) \<Rightarrow> 's \<Rightarrow> error + 's" where
  "for_loop i n body s =
     (if i < n
      then (case body i s of Inl e \<Rightarrow> Inl e | Inr s' \<Rightarrow> for_loop (Suc i) n body s')
      else Inr s)"
  by pat_completeness auto
termination
  by (relation "measure (\<lambda>(i, n, body, s). n - i)") auto

declare for_loop.simps [simp del]

section \<open>Matrix arithmetic\<close>

text \<open>
  \<^verbatim>\<open>addMatrices\<close>: the guard compares the heights and the widths of the first rows
  (the first rows exist when the third test is reached); the result is allocated
  \<open>n \<times> n\<close> with \<open>n\<close> the height of \<open>matrixA\<close>, and both loops run to \<open>n\<close>.
\<close>

definition addMatrices :: "Matrix \<Rightarrow> Matrix \<Rightarrow> error + Matrix" where
  "addMatrices matrixA matrixB =
     (if matrixA = [] \<or> length matrixA \<noteq> length matrixB
         \<or> length (matrixA ! 0) \<noteq> length (matrixB ! 0)
      then Inl DimensionMismatch
      else
        let n = length matrixA;
            result = replicate n (replicate n 0)
        in for_loop 0 n (\<lambda>i. for_loop 0 n (\<lambda>j res.
             bindE (elem matrixA i j) (\<lambda>a.
             bindE (elem matrixB i j) (\<lambda>b.
             store res i j (a + b))))) result)"

text \<open>
  \<^verbatim>\<open>multiplyMatrices\<close>: after the guard, \<^verbatim>\<open>matrixB[0].size()\<close> is read without a
  test that \<open>matrixB\<close> has a row.
\<close>

definition multiplyMatrices :: "Matrix \<Rightarrow> Matrix \<Rightarrow> error + Matrix" where
  "multiplyMatrices matrixA matrixB =
     (if matrixA = [] \<or> length (matrixA ! 0) \<noteq> length matrixB
      then Inl DimensionMismatch
      else
        let n = length matrixA in
        bindE (row matrixB 0) (\<lambda>b0.
        let m = length b0;
            p = length matrixB;
            result = replicate n (replicate m 0)
        in for_loop 0 n (\<lambda>i. for_loop 0 m (\<lambda>j. for_loop 0 p (\<lambda>k res.
             bindE (elem res i j) (\<lambda>c.
             bindE (elem matrixA i k) (\<lambda>a.
             bindE (elem matrixB k j) (\<lambda>b.
             store res i j (c + a * b))))))) result))"

text \<open>
  \<^verbatim>\<open>sumDiagonals\<close> prints either an error line or the two sums; the report is what
  it prints. The sums are \<^verbatim>\<open>long long\<close>; each element is sign-extended when added.
\<close>

datatype diag_report = NotSquare | DiagonalSums clonglong clonglong

definition sumDiagonals :: "Matrix \<Rightarrow> error + diag_report" where
  "sumDiagonals matrix =
     (if matrix = [] \<or> length matrix \<noteq> length (matrix ! 0)
      then Inr NotSquare
      else
        let n = length matrix in
        bindE (for_loop 0 n (\<lambda>i (mainDiagonalSum, secondaryDiagonalSum).
                 bindE (elem matrix i i) (\<lambda>a.
                 bindE (elem matrix i (n - 1 - i)) (\<lambda>b.
                 Inr (mainDiagonalSum + scast a, secondaryDiagonalSum + scast b))))
               (0, 0))
          (\<lambda>(mainDiagonalSum, secondaryDiagonalSum).
             Inr (DiagonalSums mainDiagonalSum secondaryDiagonalSum)))"

section \<open>Mutators\<close>

text \<open>
  The mutators work in place and print a diagnostic to \<^verbatim>\<open>std::cerr\<close> when they
  refuse. A call is modelled by the matrix after the call and the diagnostic, if any;
  a diagnostic carries the numbers its message prints.
\<close>

datatype diagnostic =
    EmptyMatrix
  | RowIndexOutOfBounds int int int
  | ColumnIndexOutOfBounds int int int
  | IndexOutOfBounds int int int int

definition swapRows :: "Matrix \<Rightarrow> int \<Rightarrow> int \<Rightarrow> Matrix \<times> diagnostic option" where
  "swapRows matrix row1 row2 =
     (if matrix = [] then (matrix, Some EmptyMatrix)
      else
        let n = int (length matrix) in
        if row1 < 0 \<or> row1 \<ge> n \<or> row2 < 0 \<or> row2 \<ge> n
        then (matrix, Some (RowIndexOutOfBounds row1 row2 (n - 1)))
        else if row1 = row2 then (matrix, None)
        else (matrix[nat row1 := matrix ! nat row2, nat row2 := matrix ! nat row1], None))"

definition swapCols :: "Matrix \<Rightarrow> int \<Rightarrow> int \<Rightarrow> error + Matrix \<times> diagnostic option" where
  "swapCols matrix col1 col2 =
     (if matrix = [] \<or> matrix ! 0 = [] then Inr (matrix, Some EmptyMatrix)
      else
        let n = length matrix;
            m = int (length (matrix ! 0))
        in
        if col1 < 0 \<or> col1 \<ge> m \<or> col2 < 0 \<or> col2 \<ge> m
        then Inr (matrix, Some (ColumnIndexOutOfBounds col1 col2 (m - 1)))
        else if col1 = col2 then Inr (matrix, None)
        else
          bindE (for_loop 0 n (\<lambda>i mat.
                   bindE (elem mat i (nat col1)) (\<lambda>x.
                   bindE (elem mat i (nat col2)) (\<lambda>y.
                   bindE (store mat i (nat col1) y) (\<lambda>mat'.
                   store mat' i (nat col2) x)))) matrix)
            (\<lambda>mat. Inr (mat, None)))"

definition updateElement ::
  "Matrix \<Rightarrow> int \<Rightarrow> int \<Rightarrow> cint \<Rightarrow> error + Matrix \<times> diagnostic option" where
  "updateElement matrix r c newValue =
     (if matrix = [] \<or> matrix ! 0 = [] then Inr (matrix, Some EmptyMatrix)
      else
        let n = int (length matrix);
            m = int (length (matrix ! 0))
        in
        if r < 0 \<or> r \<ge> n \<or> c < 0 \<or> c \<ge> m
        then Inr (matrix, Some (IndexOutOfBounds r c (n - 1) (m - 1)))
        else bindE (store matrix (nat r) (nat c) newValue) (\<lambda>mat. Inr (mat, None)))"

section \<open>Loading\<close>

text \<open>
  \<^verbatim>\<open>inFile >> x\<close> for an \<^verbatim>\<open>int x\<close>, as the C++ library defines the formatted
  extraction (decimal base, classic locale): white space is skipped, then an optional
  sign and the longest run of decimal digits are consumed; the extraction fails when
  there is no digit or when the value does not fit an \<^verbatim>\<open>int\<close>. The stream is the
  list of the characters not yet consumed.
\<close>

definition isspace :: "char \<Rightarrow> bool" where
  "isspace c = (c \<in> set [CHR '' '', CHR 0x09, CHR 0x0A, CHR 0x0B, CHR 0x0C, CHR 0x0D])"

definition isdigit :: "char \<Rightarrow> bool" where
  "isdigit c = (c \<in> set ''0123456789'')"

definition digit_value :: "char \<Rightarrow> int" where
  "digit_value c = int (of_char c) - 48"

fun decimal :: "int \<Rightarrow> string \<Rightarrow> int" where
  "decimal acc [] = acc"
| "decimal acc (c # cs) = decimal (10 * acc + digit_value c) cs"

definition read_int :: "string \<Rightarrow> (cint \<times> string) option" where
  "read_int inp =
     (let s = dropWhile isspace inp;
          negative = (s \<noteq> [] \<and> hd s = CHR ''-'');
          s' = (if s \<noteq> [] \<and> (hd s = CHR ''-'' \<or> hd s = CHR ''+'') then tl s else s);
          digits = takeWhile isdigit s';
          v = (if negative then - decimal 0 digits else decimal 0 digits)
      in if digits = [] \<or> v < - (2 ^ 31) \<or> 2 ^ 31 \<le> v then None
         else Some (word_of_int v, dropWhile isdigit s'))"

text \<open>\<^verbatim>\<open>v.resize(n, x)\<close>: the first \<open>n\<close> elements are kept, missing ones are copies of \<open>x\<close>.\<close>

definition resize :: "nat \<Rightarrow> 'a \<Rightarrow> 'a list \<Rightarrow> 'a list" where
  "resize n x xs = take n xs @ replicate (n - length xs) x"

text \<open>
  The two nested loops that read a matrix (the source has them twice, for
  \<open>matrixA\<close> and for \<open>matrixB\<close>). The state is the matrix and the stream; the
  reference \<^verbatim>\<open>matrix[i][j]\<close> is formed before the extraction runs.
\<close>

definition read_matrix :: "nat \<Rightarrow> Matrix \<Rightarrow> string \<Rightarrow> error + Matrix \<times> string" where
  "read_matrix n matrix inp =
     for_loop 0 n (\<lambda>i. for_loop 0 n (\<lambda>j (mat, s).
       bindE (elem mat i j) (\<lambda>_.
       case read_int s of
         None \<Rightarrow> Inl LoadFailed
       | Some (v, s') \<Rightarrow> bindE (store mat i j v) (\<lambda>mat'. Inr (mat', s')))))
     (matrix, inp)"

text \<open>
  \<^verbatim>\<open>loadMatrices\<close>. \<open>file\<close> is the content of the file named \<open>filename\<close>, \<open>None\<close>
  when it cannot be opened. The caller passes its two matrices by reference: the
  memory maps an address to the matrix stored there, and \<open>matrixA\<close> and \<open>matrixB\<close> are
  the addresses of the two arguments (the same address when the caller passes one
  object twice). \<open>Inr (mem', n)\<close> is the return value \<^verbatim>\<open>true\<close> with the memory after
  the call and the value left in \<^verbatim>\<open>n\<close>; \<open>Inl LoadFailed\<close> is the return value
  \<^verbatim>\<open>false\<close> (the caller then exits; what the parameters hold is not modelled).
  \<open>seen\<close> reads what the caller finds behind its two references.
\<close>

type_synonym memory = "nat \<Rightarrow> Matrix"

definition loadMatrices ::
  "string option \<Rightarrow> nat \<Rightarrow> nat \<Rightarrow> memory \<Rightarrow> error + memory \<times> int" where
  "loadMatrices file matrixA matrixB mem =
     (case file of
        None \<Rightarrow> Inl LoadFailed
      | Some inp \<Rightarrow>
          (case read_int inp of
             None \<Rightarrow> Inl LoadFailed
           | Some (nw, inp1) \<Rightarrow>
               let n = sint nw in
               if n \<le> 0 then Inl LoadFailed
               else
                 let mem1 = mem(matrixA := resize (nat n) (replicate (nat n) 0) (mem matrixA));
                     mem2 = mem1(matrixB := resize (nat n) (replicate (nat n) 0) (mem1 matrixB))
                 in bindE (read_matrix (nat n) (mem2 matrixA) inp1) (\<lambda>(A, inp2).
                    let mem3 = mem2(matrixA := A) in
                    bindE (read_matrix (nat n) (mem3 matrixB) inp2) (\<lambda>(B, inp3).
                    Inr (mem3(matrixB := B), n)))))"

definition seen :: "nat \<Rightarrow> nat \<Rightarrow> error + memory \<times> int \<Rightarrow> error + Matrix \<times> Matrix \<times> int" where
  "seen matrixA matrixB res =
     (case res of Inl e \<Rightarrow> Inl e | Inr (mem, n) \<Rightarrow> Inr (mem matrixA, mem matrixB, n))"

section \<open>Notions of the specification\<close>

text \<open>
  The width of a matrix is the length of its first row; a matrix is rectangular when
  every row has that length. \<open>shape h w M\<close>: \<open>M\<close> has \<open>h\<close> rows of length \<open>w\<close>.
\<close>

definition width :: "'a list list \<Rightarrow> nat" where
  "width M = (case M of [] \<Rightarrow> 0 | r # _ \<Rightarrow> length r)"

definition rectangular :: "'a list list \<Rightarrow> bool" where
  "rectangular M = (\<forall>r \<in> set M. length r = width M)"

definition shape :: "nat \<Rightarrow> nat \<Rightarrow> 'a list list \<Rightarrow> bool" where
  "shape h w M = (length M = h \<and> (\<forall>i<h. length (M ! i) = w))"

text \<open>
  Loop invariants. \<open>add_inv\<close>: the entries before position \<open>(i, j)\<close> in row-major
  order hold the sums. \<open>mul_entry\<close>: the value of entry \<open>(a, b)\<close> of the product
  when the loops stand at \<open>(i, j, k)\<close>. \<open>diag_inv\<close>: both accumulators hold the
  exact integer sums of the first \<open>k\<close> diagonal elements.
\<close>

definition add_inv :: "Matrix \<Rightarrow> Matrix \<Rightarrow> nat \<Rightarrow> nat \<Rightarrow> nat \<Rightarrow> Matrix \<Rightarrow> bool" where
  "add_inv A B n i j res =
     (shape n n res \<and>
      (\<forall>a<n. \<forall>b<n. a < i \<or> (a = i \<and> b < j) \<longrightarrow> res ! a ! b = A ! a ! b + B ! a ! b))"

definition mul_entry :: "Matrix \<Rightarrow> Matrix \<Rightarrow> nat \<Rightarrow> nat \<Rightarrow> nat \<Rightarrow> nat \<Rightarrow> nat \<Rightarrow> nat \<Rightarrow> cint" where
  "mul_entry A B p i j k a b =
     (if a < i \<or> (a = i \<and> b < j) then (\<Sum>x<p. A ! a ! x * B ! x ! b)
      else if a = i \<and> b = j then (\<Sum>x<k. A ! i ! x * B ! x ! j)
      else 0)"

definition mul_inv ::
  "Matrix \<Rightarrow> Matrix \<Rightarrow> nat \<Rightarrow> nat \<Rightarrow> nat \<Rightarrow> nat \<Rightarrow> nat \<Rightarrow> nat \<Rightarrow> Matrix \<Rightarrow> bool" where
  "mul_inv A B n m p i j k res =
     (shape n m res \<and> (\<forall>a<n. \<forall>b<m. res ! a ! b = mul_entry A B p i j k a b))"

definition diag_inv :: "Matrix \<Rightarrow> nat \<Rightarrow> clonglong \<times> clonglong \<Rightarrow> bool" where
  "diag_inv M k s =
     (sint (fst s) = (\<Sum>i<k. sint (M ! i ! i)) \<and>
      sint (snd s) = (\<Sum>i<k. sint (M ! i ! (length M - 1 - i))))"

text \<open>
  \<open>swap_elems\<close> exchanges two positions of a row, as \<^verbatim>\<open>std::swap\<close> on
  \<^verbatim>\<open>matrix[i][col1]\<close> and \<^verbatim>\<open>matrix[i][col2]\<close> does; \<open>cols_inv\<close> is the invariant
  of the loop of \<^verbatim>\<open>swapCols\<close>: the first \<open>i\<close> rows are exchanged.
\<close>

definition swap_elems :: "nat \<Rightarrow> nat \<Rightarrow> 'a list \<Rightarrow> 'a list" where
  "swap_elems c1 c2 r = r[c1 := r ! c2, c2 := r ! c1]"


text \<open>
  For the loader: \<open>stops t\<close> says that the text \<open>t\<close> does not begin with a digit, so
  that it cannot lengthen a number that ends just before it; \<open>read_ints k\<close> is \<open>k\<close>
  extractions in a row, with the values read and the stream left. \<open>filled\<close> says that
  the entries before position \<open>(i, j)\<close> (row-major) hold the values \<open>vs\<close>; \<open>rm_inv\<close>
  and \<open>rm_rest\<close> are the invariants of the reading loops: what has been read so far, and
  that the reads still to come succeed and leave \<open>r\<close>.
\<close>

definition stops :: "string \<Rightarrow> bool" where
  "stops t = (t = [] \<or> \<not> isdigit (hd t))"

fun read_ints :: "nat \<Rightarrow> string \<Rightarrow> (cint list \<times> string) option" where
  "read_ints 0 s = Some ([], s)"
| "read_ints (Suc k) s =
     (case read_int s of
        None \<Rightarrow> None
      | Some (v, s') \<Rightarrow>
          (case read_ints k s' of None \<Rightarrow> None | Some (vs, r) \<Rightarrow> Some (v # vs, r)))"

definition filled :: "nat \<Rightarrow> cint list \<Rightarrow> nat \<Rightarrow> nat \<Rightarrow> Matrix \<Rightarrow> bool" where
  "filled n vs i j mat =
     (shape n n mat \<and>
      (\<forall>a<n. \<forall>b<n. a < i \<or> (a = i \<and> b < j) \<longrightarrow> mat ! a ! b = vs ! (a * n + b)))"

definition rm_inv :: "nat \<Rightarrow> string \<Rightarrow> nat \<Rightarrow> nat \<Rightarrow> Matrix \<times> string \<Rightarrow> bool" where
  "rm_inv n s0 i j st =
     (\<exists>vs. read_ints (i * n + j) s0 = Some (vs, snd st) \<and> filled n vs i j (fst st))"

definition rm_rest :: "nat \<Rightarrow> string \<Rightarrow> nat \<Rightarrow> nat \<Rightarrow> Matrix \<times> string \<Rightarrow> bool" where
  "rm_rest n r i j st = (\<exists>ws. read_ints (n * n - (i * n + j)) (snd st) = Some (ws, r))"

section \<open>Basic facts\<close>

lemma bindE_Inr [simp]: "bindE (Inr x) f = f x"
  by (simp add: bindE_def)

lemma bindE_Inl [simp]: "bindE (Inl e) f = Inl e"
  by (simp add: bindE_def)

lemma for_loop_done [simp]: "n \<le> i \<Longrightarrow> for_loop i n body s = Inr s"
  by (simp add: for_loop.simps)

lemma for_loop_step:
  "i < n \<Longrightarrow> body i s = Inr s' \<Longrightarrow> for_loop i n body s = for_loop (Suc i) n body s'"
  by (subst for_loop.simps) simp

lemma for_loop_stop:
  "i < n \<Longrightarrow> body i s = Inl e \<Longrightarrow> for_loop i n body s = Inl e"
  by (subst for_loop.simps) simp

lemma for_loop_total:
  assumes "I i s" and "i \<le> n"
    and "\<And>k t. i \<le> k \<Longrightarrow> k < n \<Longrightarrow> I k t \<Longrightarrow> \<exists>t'. body k t = Inr t' \<and> I (Suc k) t'"
  shows "\<exists>t. for_loop i n body s = Inr t \<and> I n t"
  using assms
proof (induction i n body s rule: for_loop.induct)
  case (1 i n body s)
  show ?case
  proof (cases "i < n")
    case True
    from "1.prems"(3) [of i s] True "1.prems"(1)
    obtain s' where s': "body i s = Inr s'" "I (Suc i) s'" by auto
    have "\<exists>t. for_loop (Suc i) n body s' = Inr t \<and> I n t"
    proof (rule "1.IH" [OF True s'(1) s'(2)])
      show "Suc i \<le> n" using True by simp
    next
      fix k t assume "Suc i \<le> k" "k < n" "I k t"
      then show "\<exists>t'. body k t = Inr t' \<and> I (Suc k) t'"
        using "1.prems"(3) [of k t] by simp
    qed
    moreover have "for_loop i n body s = for_loop (Suc i) n body s'"
      using True s'(1) by (subst for_loop.simps) simp
    ultimately show ?thesis by simp
  next
    case False
    with "1.prems"(2) have "i = n" by simp
    then show ?thesis using "1.prems"(1) by simp
  qed
qed

lemma for_loop_partial:
  assumes "for_loop i n body s = Inr t" and "I i s" and "i \<le> n"
    and "\<And>k u u'. i \<le> k \<Longrightarrow> k < n \<Longrightarrow> I k u \<Longrightarrow> body k u = Inr u' \<Longrightarrow> I (Suc k) u'"
  shows "I n t"
  using assms
proof (induction i n body s rule: for_loop.induct)
  case (1 i n body s)
  show ?case
  proof (cases "i < n")
    case True
    show ?thesis
    proof (cases "body i s")
      case (Inl e)
      with True "1.prems"(1) show ?thesis by (simp add: for_loop_stop)
    next
      case (Inr s')
      have "for_loop i n body s = for_loop (Suc i) n body s'"
        using True Inr by (subst for_loop.simps) simp
      then have run: "for_loop (Suc i) n body s' = Inr t"
        using "1.prems"(1) by simp
      have inv: "I (Suc i) s'"
        using "1.prems"(4) [of i s s'] True "1.prems"(2) Inr by simp
      show ?thesis
      proof (rule "1.IH" [OF True Inr run inv])
        show "Suc i \<le> n" using True by simp
      next
        fix k u u' assume "Suc i \<le> k" "k < n" "I k u" "body k u = Inr u'"
        then show "I (Suc k) u'" using "1.prems"(4) [of k u u'] by simp
      qed
    qed
  next
    case False
    with "1.prems" show ?thesis by simp
  qed
qed

lemma for_loop_error:
  assumes "for_loop i n body s = Inl e"
  shows "\<exists>k u. i \<le> k \<and> k < n \<and> body k u = Inl e"
  using assms
proof (induction i n body s rule: for_loop.induct)
  case (1 i n body s)
  show ?case
  proof (cases "i < n")
    case True
    show ?thesis
    proof (cases "body i s")
      case (Inl e')
      with True "1.prems" have "e' = e" by (simp add: for_loop_stop)
      with Inl True show ?thesis by auto
    next
      case (Inr s')
      have "for_loop i n body s = for_loop (Suc i) n body s'"
        using True Inr by (subst for_loop.simps) simp
      then have "for_loop (Suc i) n body s' = Inl e"
        using "1.prems" by simp
      from "1.IH" [OF True Inr this]
      obtain k u where "Suc i \<le> k" "k < n" "body k u = Inl e" by auto
      then show ?thesis by (intro exI [of _ k] exI [of _ u]) simp
    qed
  next
    case False
    with "1.prems" show ?thesis by simp
  qed
qed

lemma elem_in: "i < length M \<Longrightarrow> j < length (M ! i) \<Longrightarrow> elem M i j = Inr (M ! i ! j)"
  by (simp add: elem_def row_def)

lemma store_in:
  "i < length M \<Longrightarrow> j < length (M ! i) \<Longrightarrow> store M i j v = Inr (M[i := (M ! i)[j := v]])"
  by (simp add: store_def row_def)

lemma shape_replicate: "shape h w (replicate h (replicate w x))"
  by (simp add: shape_def)

lemma shape_update:
  "shape h w M \<Longrightarrow> i < h \<Longrightarrow> shape h w (M[i := (M ! i)[j := v]])"
  by (auto simp: shape_def nth_list_update)

lemma nth_update2:
  "shape h w M \<Longrightarrow> i < h \<Longrightarrow> j < w \<Longrightarrow> a < h \<Longrightarrow> b < w \<Longrightarrow>
   M[i := (M ! i)[j := v]] ! a ! b = (if a = i \<and> b = j then v else M ! a ! b)"
  by (auto simp: shape_def nth_list_update)

lemma add_inner:
  assumes inv: "add_inv A B n i 0 res" and i: "i < n"
    and A: "length A = n" "\<forall>a<n. n \<le> length (A ! a)"
    and B: "length B = n" "\<forall>a<n. n \<le> length (B ! a)"
  shows "\<exists>res'. for_loop 0 n (\<lambda>j res.
             bindE (elem A i j) (\<lambda>a.
             bindE (elem B i j) (\<lambda>b.
             store res i j (a + b)))) res = Inr res' \<and> add_inv A B n (Suc i) 0 res'"
proof -
  have "\<exists>res'. for_loop 0 n (\<lambda>j res.
             bindE (elem A i j) (\<lambda>a.
             bindE (elem B i j) (\<lambda>b.
             store res i j (a + b)))) res = Inr res' \<and> add_inv A B n i n res'"
  proof (rule for_loop_total [where I = "add_inv A B n i"])
    show "add_inv A B n i 0 res" by (rule inv)
  next
    show "0 \<le> n" by simp
  next
    fix j t assume j: "j < n" and t: "add_inv A B n i j t"
    have sh: "shape n n t" using t by (simp add: add_inv_def)
    have ea: "elem A i j = Inr (A ! i ! j)" using A i j by (intro elem_in) auto
    have eb: "elem B i j = Inr (B ! i ! j)" using B i j by (intro elem_in) auto
    have st: "store t i j v = Inr (t[i := (t ! i)[j := v]])" for v
      using sh i j by (intro store_in) (auto simp: shape_def)
    have "add_inv A B n i (Suc j) (t[i := (t ! i)[j := A ! i ! j + B ! i ! j]])"
      unfolding add_inv_def
    proof (intro conjI allI impI)
      show "shape n n (t[i := (t ! i)[j := A ! i ! j + B ! i ! j]])"
        using sh i by (rule shape_update)
    next
      fix a b assume ab: "a < n" "b < n" "a < i \<or> a = i \<and> b < Suc j"
      show "t[i := (t ! i)[j := A ! i ! j + B ! i ! j]] ! a ! b = A ! a ! b + B ! a ! b"
        using ab t i j by (auto simp: nth_update2 [OF sh i j] add_inv_def less_Suc_eq)
    qed
    then show "\<exists>t'. bindE (elem A i j) (\<lambda>a. bindE (elem B i j) (\<lambda>b. store t i j (a + b))) = Inr t'
        \<and> add_inv A B n i (Suc j) t'"
      by (simp add: ea eb st)
  qed
  moreover have "add_inv A B n i n r \<Longrightarrow> add_inv A B n (Suc i) 0 r" for r
    by (auto simp: add_inv_def less_Suc_eq)
  ultimately show ?thesis by blast
qed

lemma addMatrices_result:
  assumes "A \<noteq> []" and "length B = length A"
    and "length (A ! 0) = length (B ! 0)"
    and A: "\<forall>a<length A. length A \<le> length (A ! a)"
    and B: "\<forall>a<length A. length A \<le> length (B ! a)"
  shows "\<exists>C. addMatrices A B = Inr C \<and> shape (length A) (length A) C \<and>
           (\<forall>i<length A. \<forall>j<length A. C ! i ! j = A ! i ! j + B ! i ! j)"
proof -
  define n where "n = length A"
  have "\<exists>C. for_loop 0 n (\<lambda>i. for_loop 0 n (\<lambda>j res.
             bindE (elem A i j) (\<lambda>a.
             bindE (elem B i j) (\<lambda>b.
             store res i j (a + b))))) (replicate n (replicate n 0)) = Inr C
          \<and> add_inv A B n n 0 C"
  proof (rule for_loop_total [where I = "\<lambda>i. add_inv A B n i 0"])
    show "add_inv A B n 0 0 (replicate n (replicate n 0))"
      by (simp add: add_inv_def shape_replicate)
  next
    show "0 \<le> n" by simp
  next
    fix i t assume "i < n" "add_inv A B n i 0 t"
    then show "\<exists>t'. for_loop 0 n (\<lambda>j res.
             bindE (elem A i j) (\<lambda>a.
             bindE (elem B i j) (\<lambda>b.
             store res i j (a + b)))) t = Inr t' \<and> add_inv A B n (Suc i) 0 t'"
      using A B assms(2) by (intro add_inner) (auto simp: n_def)
  qed
  then obtain C where C: "for_loop 0 n (\<lambda>i. for_loop 0 n (\<lambda>j res.
             bindE (elem A i j) (\<lambda>a.
             bindE (elem B i j) (\<lambda>b.
             store res i j (a + b))))) (replicate n (replicate n 0)) = Inr C"
     and inv: "add_inv A B n n 0 C" by blast
  have "addMatrices A B = Inr C"
    using assms(1-3) C by (simp add: addMatrices_def n_def Let_def)
  then show ?thesis using inv by (auto simp: add_inv_def n_def)
qed

lemma mul_entry_next_col: "mul_entry A B p i j p a b = mul_entry A B p i (Suc j) 0 a b"
  by (auto simp: mul_entry_def less_Suc_eq)

lemma mul_entry_next_row: "b < m \<Longrightarrow> mul_entry A B p i m 0 a b = mul_entry A B p (Suc i) 0 0 a b"
  by (auto simp: mul_entry_def less_Suc_eq)

lemma mul_entry_step:
  "mul_entry A B p i j (Suc k) a b =
     (if a = i \<and> b = j then mul_entry A B p i j k i j + A ! i ! k * B ! k ! j
      else mul_entry A B p i j k a b)"
  by (auto simp: mul_entry_def)

lemma mul_k_loop:
  assumes inv: "mul_inv A B n m p i j 0 res" and i: "i < n" and j: "j < m"
    and A: "length A = n" "\<forall>a<n. p \<le> length (A ! a)"
    and B: "length B = p" "\<forall>x<p. m \<le> length (B ! x)"
  shows "\<exists>res'. for_loop 0 p (\<lambda>k res.
             bindE (elem res i j) (\<lambda>c.
             bindE (elem A i k) (\<lambda>a.
             bindE (elem B k j) (\<lambda>b.
             store res i j (c + a * b))))) res = Inr res' \<and> mul_inv A B n m p i (Suc j) 0 res'"
proof -
  have "\<exists>res'. for_loop 0 p (\<lambda>k res.
             bindE (elem res i j) (\<lambda>c.
             bindE (elem A i k) (\<lambda>a.
             bindE (elem B k j) (\<lambda>b.
             store res i j (c + a * b))))) res = Inr res' \<and> mul_inv A B n m p i j p res'"
  proof (rule for_loop_total [where I = "mul_inv A B n m p i j"])
    show "mul_inv A B n m p i j 0 res" by (rule inv)
  next
    show "0 \<le> p" by simp
  next
    fix k t assume k: "k < p" and t: "mul_inv A B n m p i j k t"
    have sh: "shape n m t" using t by (simp add: mul_inv_def)
    have ec: "elem t i j = Inr (t ! i ! j)" using sh i j by (intro elem_in) (auto simp: shape_def)
    have ea: "elem A i k = Inr (A ! i ! k)" using A i k by (intro elem_in) auto
    have eb: "elem B k j = Inr (B ! k ! j)" using B j k by (intro elem_in) auto
    have st: "store t i j v = Inr (t[i := (t ! i)[j := v]])" for v
      using sh i j by (intro store_in) (auto simp: shape_def)
    have "mul_inv A B n m p i j (Suc k) (t[i := (t ! i)[j := t ! i ! j + A ! i ! k * B ! k ! j]])"
      unfolding mul_inv_def
    proof (intro conjI allI impI)
      show "shape n m (t[i := (t ! i)[j := t ! i ! j + A ! i ! k * B ! k ! j]])"
        using sh i by (rule shape_update)
    next
      fix a b assume ab: "a < n" "b < m"
      show "t[i := (t ! i)[j := t ! i ! j + A ! i ! k * B ! k ! j]] ! a ! b
              = mul_entry A B p i j (Suc k) a b"
        using ab t i j by (simp add: nth_update2 [OF sh i j] mul_inv_def mul_entry_step)
    qed
    then show "\<exists>t'. bindE (elem t i j) (\<lambda>c. bindE (elem A i k) (\<lambda>a. bindE (elem B k j) (\<lambda>b.
                 store t i j (c + a * b)))) = Inr t' \<and> mul_inv A B n m p i j (Suc k) t'"
      by (simp add: ec ea eb st)
  qed
  moreover have "mul_inv A B n m p i j p r \<Longrightarrow> mul_inv A B n m p i (Suc j) 0 r" for r
    by (simp add: mul_inv_def mul_entry_next_col)
  ultimately show ?thesis by blast
qed

lemma mul_j_loop:
  assumes inv: "mul_inv A B n m p i 0 0 res" and i: "i < n"
    and A: "length A = n" "\<forall>a<n. p \<le> length (A ! a)"
    and B: "length B = p" "\<forall>x<p. m \<le> length (B ! x)"
  shows "\<exists>res'. for_loop 0 m (\<lambda>j. for_loop 0 p (\<lambda>k res.
             bindE (elem res i j) (\<lambda>c.
             bindE (elem A i k) (\<lambda>a.
             bindE (elem B k j) (\<lambda>b.
             store res i j (c + a * b)))))) res = Inr res' \<and> mul_inv A B n m p (Suc i) 0 0 res'"
proof -
  have "\<exists>res'. for_loop 0 m (\<lambda>j. for_loop 0 p (\<lambda>k res.
             bindE (elem res i j) (\<lambda>c.
             bindE (elem A i k) (\<lambda>a.
             bindE (elem B k j) (\<lambda>b.
             store res i j (c + a * b)))))) res = Inr res' \<and> mul_inv A B n m p i m 0 res'"
  proof (rule for_loop_total [where I = "\<lambda>j. mul_inv A B n m p i j 0"])
    show "mul_inv A B n m p i 0 0 res" by (rule inv)
  next
    show "0 \<le> m" by simp
  next
    fix j t assume "j < m" "mul_inv A B n m p i j 0 t"
    then show "\<exists>t'. for_loop 0 p (\<lambda>k res.
             bindE (elem res i j) (\<lambda>c.
             bindE (elem A i k) (\<lambda>a.
             bindE (elem B k j) (\<lambda>b.
             store res i j (c + a * b))))) t = Inr t' \<and> mul_inv A B n m p i (Suc j) 0 t'"
      using i A B by (intro mul_k_loop)
  qed
  moreover have "mul_inv A B n m p i m 0 r \<Longrightarrow> mul_inv A B n m p (Suc i) 0 0 r" for r
    by (simp add: mul_inv_def mul_entry_next_row)
  ultimately show ?thesis by blast
qed

lemma multiplyMatrices_result:
  assumes "A \<noteq> []" and "B \<noteq> []" and "length (A ! 0) = length B"
    and A: "\<forall>a<length A. length B \<le> length (A ! a)"
    and B: "\<forall>x<length B. length (B ! 0) \<le> length (B ! x)"
  shows "\<exists>C. multiplyMatrices A B = Inr C \<and> shape (length A) (length (B ! 0)) C \<and>
           (\<forall>i<length A. \<forall>j<length (B ! 0). C ! i ! j = (\<Sum>k<length B. A ! i ! k * B ! k ! j))"
proof -
  define n where "n = length A"
  define m where "m = length (B ! 0)"
  define p where "p = length B"
  have "\<exists>C. for_loop 0 n (\<lambda>i. for_loop 0 m (\<lambda>j. for_loop 0 p (\<lambda>k res.
             bindE (elem res i j) (\<lambda>c.
             bindE (elem A i k) (\<lambda>a.
             bindE (elem B k j) (\<lambda>b.
             store res i j (c + a * b))))))) (replicate n (replicate m 0)) = Inr C
          \<and> mul_inv A B n m p n 0 0 C"
  proof (rule for_loop_total [where I = "\<lambda>i. mul_inv A B n m p i 0 0"])
    show "mul_inv A B n m p 0 0 0 (replicate n (replicate m 0))"
      by (simp add: mul_inv_def shape_replicate mul_entry_def)
  next
    show "0 \<le> n" by simp
  next
    fix i t assume "i < n" "mul_inv A B n m p i 0 0 t"
    then show "\<exists>t'. for_loop 0 m (\<lambda>j. for_loop 0 p (\<lambda>k res.
             bindE (elem res i j) (\<lambda>c.
             bindE (elem A i k) (\<lambda>a.
             bindE (elem B k j) (\<lambda>b.
             store res i j (c + a * b)))))) t = Inr t' \<and> mul_inv A B n m p (Suc i) 0 0 t'"
      using A B by (intro mul_j_loop) (auto simp: n_def m_def p_def)
  qed
  then obtain C where C: "for_loop 0 n (\<lambda>i. for_loop 0 m (\<lambda>j. for_loop 0 p (\<lambda>k res.
             bindE (elem res i j) (\<lambda>c.
             bindE (elem A i k) (\<lambda>a.
             bindE (elem B k j) (\<lambda>b.
             store res i j (c + a * b))))))) (replicate n (replicate m 0)) = Inr C"
     and inv: "mul_inv A B n m p n 0 0 C" by blast
  have "row B 0 = Inr (B ! 0)" using assms(2) by (simp add: row_def)
  then have "multiplyMatrices A B = Inr C"
    using assms(1-3) C by (simp add: multiplyMatrices_def n_def m_def p_def Let_def)
  then show ?thesis using inv by (auto simp: mul_inv_def mul_entry_def n_def m_def p_def)
qed

lemma width_nth0: "M \<noteq> [] \<Longrightarrow> width M = length (M ! 0)"
  by (cases M) (simp_all add: width_def)

lemma rectangular_nth: "rectangular M \<Longrightarrow> i < length M \<Longrightarrow> length (M ! i) = width M"
  by (simp add: rectangular_def)

lemma sum_sint_bound:
  fixes f :: "nat \<Rightarrow> cint"
  shows "- (int k * 2 ^ 31) \<le> (\<Sum>i<k. sint (f i)) \<and> (\<Sum>i<k. sint (f i)) \<le> int k * 2 ^ 31"
proof (induction k)
  case 0
  show ?case by simp
next
  case (Suc k)
  have "- (2 ^ 31) \<le> sint (f k)" "sint (f k) < 2 ^ 31"
    using sint_ge [of "f k"] sint_lt [of "f k"] by simp_all
  with Suc show ?case by (simp add: algebra_simps)
qed

lemma sint_acc_add:
  fixes acc :: clonglong and x :: cint and f :: "nat \<Rightarrow> cint"
  assumes acc: "sint acc = (\<Sum>i<k. sint (f i))" and x: "x = f k" and k: "k < 2 ^ 31"
  shows "sint (acc + scast x) = (\<Sum>i<Suc k. sint (f i))"
proof -
  have up: "sint (scast x :: clonglong) = sint x"
    by (rule sint_up_scast) (simp add: is_up)
  have b: "- (int k * 2 ^ 31) \<le> sint acc" "sint acc \<le> int k * 2 ^ 31"
    using sum_sint_bound [of k f] acc by simp_all
  have xr: "- (2 ^ 31) \<le> sint x" "sint x < 2 ^ 31"
    using sint_ge [of x] sint_lt [of x] by simp_all
  have kk: "int k * 2 ^ 31 \<le> (2 ^ 31 - 1) * 2 ^ 31"
    using k by (intro mult_right_mono) auto
  have "- (2 ^ 63) \<le> sint acc + sint x" "sint acc + sint x < 2 ^ 63"
    using b xr kk by simp_all
  then have "signed_take_bit 63 (sint acc + sint x) = sint acc + sint x"
    by (intro signed_take_bit_int_eq_self) simp_all
  then have "sint (acc + scast x) = sint acc + sint x"
    by (simp add: sint_word_add up)
  then show ?thesis using acc x by simp
qed

lemma sumDiagonals_square:
  assumes ne: "M \<noteq> []" and sq: "\<forall>r \<in> set M. length r = length M" and small: "length M < 2 ^ 31"
  shows "\<exists>ms ss. sumDiagonals M = Inr (DiagonalSums ms ss) \<and>
           sint ms = (\<Sum>i<length M. sint (M ! i ! i)) \<and>
           sint ss = (\<Sum>i<length M. sint (M ! i ! (length M - 1 - i)))"
proof -
  define n where "n = length M"
  define body where "body = (\<lambda>i (mainDiagonalSum :: clonglong, secondaryDiagonalSum :: clonglong).
                 bindE (elem M i i) (\<lambda>a.
                 bindE (elem M i (n - 1 - i)) (\<lambda>b.
                 Inr (mainDiagonalSum + scast a, secondaryDiagonalSum + scast b))))"
  have "\<exists>t. for_loop 0 n body (0, 0) = Inr t \<and> diag_inv M n t"
  proof (rule for_loop_total [where I = "diag_inv M"])
    show "diag_inv M 0 (0, 0)" by (simp add: diag_inv_def)
  next
    show "0 \<le> n" by simp
  next
    fix k t assume k: "k < n" and t: "diag_inv M k t"
    obtain ms ss where mss: "t = (ms, ss)" by (cases t)
    have len: "length (M ! k) = n" using sq k by (simp add: n_def)
    have e1: "elem M k k = Inr (M ! k ! k)"
      using k len by (intro elem_in) (simp_all add: n_def)
    have e2: "elem M k (n - 1 - k) = Inr (M ! k ! (n - 1 - k))"
      using k len by (intro elem_in) (simp_all add: n_def)
    have k31: "k < 2 ^ 31" using k small by (simp add: n_def)
    have m: "sint (ms + scast (M ! k ! k)) = (\<Sum>i<Suc k. sint (M ! i ! i))"
      using t mss k31 by (intro sint_acc_add [where f = "\<lambda>i. M ! i ! i"]) (simp_all add: diag_inv_def)
    have s: "sint (ss + scast (M ! k ! (n - 1 - k))) = (\<Sum>i<Suc k. sint (M ! i ! (n - 1 - i)))"
      using t mss k31
      by (intro sint_acc_add [where f = "\<lambda>i. M ! i ! (n - 1 - i)"]) (simp_all add: diag_inv_def n_def)
    show "\<exists>t'. body k t = Inr t' \<and> diag_inv M (Suc k) t'"
      using m s e1 e2 by (simp add: body_def mss diag_inv_def n_def)
  qed
  then obtain ms ss where run: "for_loop 0 n body (0, 0) = Inr (ms, ss)"
    and inv: "diag_inv M n (ms, ss)" by auto
  have "length (M ! 0) = length M" using ne sq by (cases M) simp_all
  then have "sumDiagonals M = Inr (DiagonalSums ms ss)"
    using ne run by (simp add: sumDiagonals_def Let_def body_def n_def)
  then show ?thesis using inv by (simp add: diag_inv_def n_def)
qed

lemma sumDiagonals_not_square:
  assumes "M = [] \<or> length M \<noteq> width M"
  shows "sumDiagonals M = Inr NotSquare"
  using assms by (cases M) (auto simp: sumDiagonals_def width_def)

subsection \<open>Mutators\<close>

lemma length_swap_elems [simp]: "length (swap_elems c1 c2 r) = length r"
  by (simp add: swap_elems_def)


lemma width_map_swap [simp]: "width (map (swap_elems c1 c2) M) = width M"
  by (cases M) (simp_all add: width_def)








lemma swapRows_refuses:
  assumes "M = [] \<or> r1 < 0 \<or> int (length M) \<le> r1 \<or> r2 < 0 \<or> int (length M) \<le> r2"
  shows "\<exists>d. swapRows M r1 r2 = (M, Some d)"
  using assms by (auto simp: swapRows_def Let_def)

lemma swapCols_refuses:
  assumes "M = [] \<or> c1 < 0 \<or> int (width M) \<le> c1 \<or> c2 < 0 \<or> int (width M) \<le> c2"
  shows "\<exists>d. swapCols M c1 c2 = Inr (M, Some d)"
  using assms by (cases M) (auto simp: swapCols_def Let_def width_def)

lemma updateElement_refuses:
  assumes "M = [] \<or> r < 0 \<or> int (length M) \<le> r \<or> c < 0 \<or> int (width M) \<le> c"
  shows "\<exists>d. updateElement M r c v = Inr (M, Some d)"
  using assms by (cases M) (auto simp: updateElement_def Let_def width_def)


subsection \<open>The errors of the arithmetic functions\<close>

lemma bindE_InlD:
  "bindE m f = Inl e \<Longrightarrow> m = Inl e \<or> (\<exists>x. m = Inr x \<and> f x = Inl e)"
  by (cases m) simp_all

lemma row_error: "row M i = Inl e \<Longrightarrow> e = OutOfBounds"
  by (simp add: row_def split: if_splits)

lemma elem_error: "elem M i j = Inl e \<Longrightarrow> e = OutOfBounds"
  by (auto simp: elem_def dest!: bindE_InlD row_error split: if_splits)

lemma store_error: "store M i j v = Inl e \<Longrightarrow> e = OutOfBounds"
  by (auto simp: store_def dest!: bindE_InlD row_error split: if_splits)

lemma addMatrices_loops_error:
  assumes "for_loop 0 n (\<lambda>i. for_loop 0 n (\<lambda>j res.
             bindE (elem A i j) (\<lambda>a.
             bindE (elem B i j) (\<lambda>b.
             store res i j (a + b))))) result = Inl e"
  shows "e = OutOfBounds"
proof -
  from for_loop_error [OF assms] obtain i u where
    "for_loop 0 n (\<lambda>j res. bindE (elem A i j) (\<lambda>a. bindE (elem B i j) (\<lambda>b.
       store res i j (a + b)))) u = Inl e" by blast
  from for_loop_error [OF this] obtain j u' where
    "bindE (elem A i j) (\<lambda>a. bindE (elem B i j) (\<lambda>b. store u' i j (a + b))) = Inl e" by blast
  then show ?thesis
    by (auto dest!: bindE_InlD dest: elem_error store_error)
qed

lemma multiplyMatrices_loops_error:
  assumes "for_loop 0 n (\<lambda>i. for_loop 0 m (\<lambda>j. for_loop 0 p (\<lambda>k res.
             bindE (elem res i j) (\<lambda>c.
             bindE (elem A i k) (\<lambda>a.
             bindE (elem B k j) (\<lambda>b.
             store res i j (c + a * b))))))) result = Inl e"
  shows "e = OutOfBounds"
proof -
  from for_loop_error [OF assms] obtain i u where
    "for_loop 0 m (\<lambda>j. for_loop 0 p (\<lambda>k res.
             bindE (elem res i j) (\<lambda>c.
             bindE (elem A i k) (\<lambda>a.
             bindE (elem B k j) (\<lambda>b.
             store res i j (c + a * b)))))) u = Inl e" by blast
  from for_loop_error [OF this] obtain j u' where
    "for_loop 0 p (\<lambda>k res.
             bindE (elem res i j) (\<lambda>c.
             bindE (elem A i k) (\<lambda>a.
             bindE (elem B k j) (\<lambda>b.
             store res i j (c + a * b))))) u' = Inl e" by blast
  from for_loop_error [OF this] obtain k u'' where
    "bindE (elem u'' i j) (\<lambda>c.
             bindE (elem A i k) (\<lambda>a.
             bindE (elem B k j) (\<lambda>b.
             store u'' i j (c + a * b)))) = Inl e" by blast
  then show ?thesis
    by (auto dest!: bindE_InlD dest: elem_error store_error)
qed

lemma addMatrices_mismatch_iff:
  "addMatrices A B = Inl DimensionMismatch \<longleftrightarrow>
     A = [] \<or> length A \<noteq> length B \<or> width A \<noteq> width B"
proof (cases "A = [] \<or> length A \<noteq> length B")
  case True
  then show ?thesis by (auto simp: addMatrices_def)
next
  case False
  then have ne: "A \<noteq> []" "B \<noteq> []" "length A = length B" by auto
  then have w: "width A = length (A ! 0)" "width B = length (B ! 0)"
    by (simp_all add: width_nth0)
  show ?thesis
  proof (cases "width A = width B")
    case True
    have "addMatrices A B \<noteq> Inl DimensionMismatch"
    proof
      assume "addMatrices A B = Inl DimensionMismatch"
      then have "DimensionMismatch = OutOfBounds"
        using ne w True
        by (intro addMatrices_loops_error [of "length A" A B _ DimensionMismatch])
           (simp add: addMatrices_def Let_def)
      then show False by simp
    qed
    with True ne show ?thesis by simp
  next
    case False
    with ne w show ?thesis by (simp add: addMatrices_def)
  qed
qed

lemma multiplyMatrices_mismatch_iff:
  "multiplyMatrices A B = Inl DimensionMismatch \<longleftrightarrow> A = [] \<or> width A \<noteq> length B"
proof (cases "A = []")
  case True
  then show ?thesis by (simp add: multiplyMatrices_def)
next
  case False
  then have w: "width A = length (A ! 0)" by (simp add: width_nth0)
  show ?thesis
  proof (cases "width A = length B")
    case True
    have "multiplyMatrices A B \<noteq> Inl DimensionMismatch"
    proof
      assume a: "multiplyMatrices A B = Inl DimensionMismatch"
      show False
      proof (cases "B = []")
        case True
        with a False w \<open>width A = length B\<close> show False
          by (simp add: multiplyMatrices_def row_def)
      next
        case B: False
        then have "row B 0 = Inr (B ! 0)" by (simp add: row_def)
        then have "DimensionMismatch = OutOfBounds"
          using a False w True
          by (intro multiplyMatrices_loops_error
                [of "length A" "length (B ! 0)" "length B" A B _ DimensionMismatch])
             (simp add: multiplyMatrices_def Let_def)
        then show False by simp
      qed
    qed
    with True False show ?thesis by simp
  next
    case F: False
    with False w show ?thesis by (simp add: multiplyMatrices_def)
  qed
qed

subsection \<open>Square sums and rectangular products\<close>

lemma addMatrices_square:
  assumes ne: "A \<noteq> []" and A: "shape (length A) (length A) A" and B: "shape (length A) (length A) B"
  shows "\<exists>C. addMatrices A B = Inr C \<and> shape (length A) (length A) C \<and>
           (\<forall>i<length A. \<forall>j<length A. C ! i ! j = A ! i ! j + B ! i ! j)"
proof (rule addMatrices_result)
  show "A \<noteq> []" by (rule ne)
  show "length B = length A" using B by (simp add: shape_def)
  show "length (A ! 0) = length (B ! 0)" using ne A B by (simp add: shape_def)
  show "\<forall>a<length A. length A \<le> length (A ! a)" using A by (simp add: shape_def)
  show "\<forall>a<length A. length A \<le> length (B ! a)" using B by (simp add: shape_def)
qed

lemma multiplyMatrices_rectangular:
  assumes ne: "A \<noteq> []" "B \<noteq> []" and rect: "rectangular A" "rectangular B"
    and inner: "width A = length B"
  shows "\<exists>C. multiplyMatrices A B = Inr C \<and> shape (length A) (width B) C \<and>
           (\<forall>i<length A. \<forall>j<width B. C ! i ! j = (\<Sum>k<width A. A ! i ! k * B ! k ! j))"
proof -
  have w: "width A = length (A ! 0)" "width B = length (B ! 0)"
    using ne by (simp_all add: width_nth0)
  have "\<exists>C. multiplyMatrices A B = Inr C \<and> shape (length A) (length (B ! 0)) C \<and>
           (\<forall>i<length A. \<forall>j<length (B ! 0). C ! i ! j = (\<Sum>k<length B. A ! i ! k * B ! k ! j))"
  proof (rule multiplyMatrices_result)
    show "A \<noteq> []" "B \<noteq> []" by (rule ne)+
    show "length (A ! 0) = length B" using w inner by simp
    show "\<forall>a<length A. length B \<le> length (A ! a)"
      using rect(1) inner by (simp add: rectangular_nth)
    show "\<forall>x<length B. length (B ! 0) \<le> length (B ! x)"
      using rect(2) w by (simp add: rectangular_nth)
  qed
  then show ?thesis using w inner by simp
qed

subsection \<open>Loading\<close>

lemma digit_not_space: "isdigit c \<Longrightarrow> \<not> isspace c"
  by (auto simp: isdigit_def isspace_def)

lemma digit_not_sign: "isdigit c \<Longrightarrow> c \<noteq> CHR ''-'' \<and> c \<noteq> CHR ''+''"
  by (auto simp: isdigit_def)

lemma sign_not_space: "\<not> isspace CHR ''-''" "\<not> isspace CHR ''+''"
  by (simp_all add: isspace_def)

lemma takeWhile_digits_stop:
  "\<forall>c\<in>set ds. isdigit c \<Longrightarrow> stops t \<Longrightarrow> takeWhile isdigit (ds @ t) = ds"
  by (cases t) (auto simp: stops_def)

lemma dropWhile_digits_stop:
  "\<forall>c\<in>set ds. isdigit c \<Longrightarrow> stops t \<Longrightarrow> dropWhile isdigit (ds @ t) = t"
  by (cases t) (auto simp: stops_def)

lemma read_int_shape:
  assumes ws: "\<forall>c\<in>set ws. isspace c"
    and sg: "sg = [] \<or> sg = ''-'' \<or> sg = ''+''"
    and ds: "ds \<noteq> []" "\<forall>c\<in>set ds. isdigit c"
    and t: "stops t"
  shows "read_int (ws @ sg @ ds @ t) =
           (let v = (if sg = ''-'' then - decimal 0 ds else decimal 0 ds)
            in if v < - (2 ^ 31) \<or> 2 ^ 31 \<le> v then None else Some (word_of_int v, t))"
proof -
  obtain d ds' where dds: "ds = d # ds'" using ds(1) by (cases ds) auto
  have d: "isdigit d" using ds(2) dds by simp
  have nsp: "\<not> isspace (hd (sg @ ds @ t))"
    using sg d dds sign_not_space digit_not_space by auto
  have "sg @ ds @ t \<noteq> []" using ds(1) by simp
  then have dw: "dropWhile isspace (ws @ sg @ ds @ t) = sg @ ds @ t"
    using ws nsp by (cases "sg @ ds @ t") (simp_all add: dropWhile_append2 del: append_assoc)
  have tk: "takeWhile isdigit (ds @ t) = ds"
    using ds(2) t by (rule takeWhile_digits_stop)
  have dr: "dropWhile isdigit (ds @ t) = t"
    using ds(2) t by (rule dropWhile_digits_stop)
  from sg show ?thesis
  proof (elim disjE)
    assume "sg = []"
    then show ?thesis
      using dw tk dr ds(1) d dds digit_not_sign [OF d]
      by (simp add: read_int_def Let_def)
  next
    assume "sg = ''-''"
    then show ?thesis
      using dw tk dr ds(1) by (simp add: read_int_def Let_def)
  next
    assume "sg = ''+''"
    then show ?thesis
      using dw tk dr ds(1) by (simp add: read_int_def Let_def)
  qed
qed

lemma read_int_decompose:
  assumes "read_int s = Some (v, r)"
  shows "\<exists>ws sg ds. s = ws @ sg @ ds @ r \<and> (\<forall>c\<in>set ws. isspace c) \<and>
           (sg = [] \<or> sg = ''-'' \<or> sg = ''+'') \<and> ds \<noteq> [] \<and> (\<forall>c\<in>set ds. isdigit c) \<and> stops r"
proof -
  define s1 where "s1 = dropWhile isspace s"
  define sg where "sg = (if s1 \<noteq> [] \<and> (hd s1 = CHR ''-'' \<or> hd s1 = CHR ''+'') then [hd s1] else [])"
  define s' where "s' = (if s1 \<noteq> [] \<and> (hd s1 = CHR ''-'' \<or> hd s1 = CHR ''+'') then tl s1 else s1)"
  define ds where "ds = takeWhile isdigit s'"
  have r: "r = dropWhile isdigit s'" and ne: "ds \<noteq> []"
    using assms
    by (auto simp: read_int_def Let_def s1_def s'_def ds_def split: if_splits)
  have 1: "s = takeWhile isspace s @ s1" by (simp add: s1_def)
  have 2: "s1 = sg @ s'" by (cases s1) (auto simp: sg_def s'_def)
  have 3: "s' = ds @ r" by (simp add: ds_def r)
  have "stops r" unfolding stops_def r using hd_dropWhile [of isdigit s'] by auto
  moreover have "\<forall>c\<in>set (takeWhile isspace s). isspace c" by (auto dest: set_takeWhileD)
  moreover have "\<forall>c\<in>set ds. isdigit c" by (auto simp: ds_def dest: set_takeWhileD)
  moreover have "sg = [] \<or> sg = ''-'' \<or> sg = ''+''" by (auto simp: sg_def)
  moreover have "s = takeWhile isspace s @ sg @ ds @ r" using 1 2 3 by simp
  ultimately show ?thesis using ne by blast
qed

lemma read_int_prefix:
  assumes "read_int s = Some (v, r)"
  shows "\<exists>p. s = p @ r \<and> stops r \<and> (\<forall>t. stops t \<longrightarrow> read_int (p @ t) = Some (v, t))"
proof -
  from read_int_decompose [OF assms] obtain ws sg ds where
    s: "s = ws @ sg @ ds @ r" and ws: "\<forall>c\<in>set ws. isspace c"
    and sg: "sg = [] \<or> sg = ''-'' \<or> sg = ''+''" and ds: "ds \<noteq> []" "\<forall>c\<in>set ds. isdigit c"
    and r: "stops r" by blast
  have eq: "read_int (ws @ sg @ ds @ t) =
           (let v = (if sg = ''-'' then - decimal 0 ds else decimal 0 ds)
            in if v < - (2 ^ 31) \<or> 2 ^ 31 \<le> v then None else Some (word_of_int v, t))"
    if "stops t" for t using ws sg ds that by (rule read_int_shape)
  have "\<forall>t. stops t \<longrightarrow> read_int ((ws @ sg @ ds) @ t) = Some (v, t)"
  proof (intro allI impI)
    fix t assume t: "stops t"
    from eq [OF r] assms s have
      "(let v = (if sg = ''-'' then - decimal 0 ds else decimal 0 ds)
            in if v < - (2 ^ 31) \<or> 2 ^ 31 \<le> v then None else Some (word_of_int v, r)) = Some (v, r)"
      by simp
    then show "read_int ((ws @ sg @ ds) @ t) = Some (v, t)"
      using eq [OF t] by (auto simp: Let_def split: if_splits)
  qed
  moreover have "s = (ws @ sg @ ds) @ r" using s by simp
  ultimately show ?thesis using r by blast
qed

lemma read_ints_length: "read_ints k s = Some (vs, r) \<Longrightarrow> length vs = k"
  by (induction k arbitrary: s vs) (auto split: option.splits)

lemma read_ints_SucD:
  "read_ints (Suc k) s = Some (ws, r) \<Longrightarrow>
     \<exists>v s' ws'. read_int s = Some (v, s') \<and> read_ints k s' = Some (ws', r) \<and> ws = v # ws'"
  by (auto split: option.splits)

lemma read_ints_append:
  "read_ints k s = Some (vs, r) \<Longrightarrow> read_ints l r = Some (ws, r') \<Longrightarrow>
   read_ints (k + l) s = Some (vs @ ws, r')"
  by (induction k arbitrary: s vs) (auto split: option.splits)

lemma read_ints_snoc:
  "read_ints k s = Some (vs, r) \<Longrightarrow> read_int r = Some (v, r') \<Longrightarrow>
   read_ints (Suc k) s = Some (vs @ [v], r')"
  using read_ints_append [of k s vs r 1 "[v]" r'] by simp

lemma read_ints_split:
  "read_ints (k + l) s = Some (vs, r') \<Longrightarrow>
   \<exists>r. read_ints k s = Some (take k vs, r) \<and> read_ints l r = Some (drop k vs, r')"
proof (induction k arbitrary: s vs)
  case 0
  then show ?case by simp
next
  case (Suc k)
  then have "read_ints (Suc (k + l)) s = Some (vs, r')" by simp
  from read_ints_SucD [OF this] obtain v s' vs' where
    1: "read_int s = Some (v, s')" and 2: "read_ints (k + l) s' = Some (vs', r')"
    and 3: "vs = v # vs'" by blast
  from Suc.IH [OF 2] obtain r where
    "read_ints k s' = Some (take k vs', r)" "read_ints l r = Some (drop k vs', r')" by blast
  then show ?case using 1 3 by simp
qed

lemma stops_append: "s = p @ r \<Longrightarrow> stops s \<Longrightarrow> stops t \<Longrightarrow> stops (p @ t)"
  by (cases p) (auto simp: stops_def)

lemma read_ints_prefix:
  "read_ints k s = Some (vs, r) \<Longrightarrow>
   \<exists>p. s = p @ r \<and> (\<forall>t. stops t \<longrightarrow> read_ints k (p @ t) = Some (vs, t))"
proof (induction k arbitrary: s vs)
  case 0
  then show ?case by auto
next
  case (Suc k)
  from read_ints_SucD [OF Suc.prems] obtain v s' vs' where
    1: "read_int s = Some (v, s')" and 2: "read_ints k s' = Some (vs', r)" and 3: "vs = v # vs'"
    by blast
  from read_int_prefix [OF 1] obtain p0 where
    p0: "s = p0 @ s'" "stops s'" "\<forall>t. stops t \<longrightarrow> read_int (p0 @ t) = Some (v, t)" by blast
  from Suc.IH [OF 2] obtain p' where
    p': "s' = p' @ r" "\<forall>t. stops t \<longrightarrow> read_ints k (p' @ t) = Some (vs', t)" by blast
  have "\<forall>t. stops t \<longrightarrow> read_ints (Suc k) ((p0 @ p') @ t) = Some (vs, t)"
  proof (intro allI impI)
    fix t assume t: "stops t"
    have "stops (p' @ t)" using p'(1) p0(2) t by (rule stops_append)
    then have "read_int (p0 @ p' @ t) = Some (v, p' @ t)" using p0(3) by simp
    then show "read_ints (Suc k) ((p0 @ p') @ t) = Some (vs, t)"
      using p'(2) t 3 by simp
  qed
  moreover have "s = (p0 @ p') @ r" using p0(1) p'(1) by simp
  ultimately show ?case by blast
qed

lemma idx_less: "b < n \<Longrightarrow> a < i \<Longrightarrow> a * n + b < i * n + (j :: nat)"
proof -
  assume "b < n" "a < i"
  then have "a * n + b < Suc a * n" by simp
  also have "\<dots> \<le> i * n" using \<open>a < i\<close> by (intro mult_le_mono1) simp
  finally show ?thesis by simp
qed

lemma idx_bound: "i < n \<Longrightarrow> j < n \<Longrightarrow> i * n + j < n * (n :: nat)"
  using idx_less [of j n i n 0] by (simp add: mult.commute)

lemma filled_step:
  assumes f: "filled n vs i j mat" and i: "i < n" and j: "j < n" and len: "length vs = i * n + j"
  shows "filled n (vs @ [v]) i (Suc j) (mat[i := (mat ! i)[j := v]])"
  unfolding filled_def
proof (intro conjI allI impI)
  have sh: "shape n n mat" using f by (simp add: filled_def)
  show "shape n n (mat[i := (mat ! i)[j := v]])" using sh i by (rule shape_update)
  fix a b assume ab: "a < n" "b < n" "a < i \<or> a = i \<and> b < Suc j"
  show "mat[i := (mat ! i)[j := v]] ! a ! b = (vs @ [v]) ! (a * n + b)"
  proof (cases "a = i \<and> b = j")
    case True
    then show ?thesis using len sh i j by (auto simp: shape_def nth_append)
  next
    case False
    then have before: "a < i \<or> a = i \<and> b < j" using ab(3) by auto
    then have "a * n + b < i * n + j" using ab(2) idx_less [of b n a i j] by auto
    then have "(vs @ [v]) ! (a * n + b) = vs ! (a * n + b)" using len by (simp add: nth_append)
    moreover have "mat ! a ! b = vs ! (a * n + b)" using f ab(1,2) before by (auto simp: filled_def)
    ultimately show ?thesis using False by (auto simp: nth_update2 [OF sh i j ab(1,2)])
  qed
qed

lemma read_step:
  assumes inv: "rm_inv n s0 i j (mat, s)" and i: "i < n" and j: "j < n"
    and rd: "read_int s = Some (v, s')"
  shows "bindE (elem mat i j) (\<lambda>_.
           case read_int s of
             None \<Rightarrow> Inl LoadFailed
           | Some (v, s') \<Rightarrow> bindE (store mat i j v) (\<lambda>mat'. Inr (mat', s')))
         = Inr (mat[i := (mat ! i)[j := v]], s')"
    and "rm_inv n s0 i (Suc j) (mat[i := (mat ! i)[j := v]], s')"
proof -
  from inv obtain vs where vs: "read_ints (i * n + j) s0 = Some (vs, s)" "filled n vs i j mat"
    by (auto simp: rm_inv_def)
  have sh: "shape n n mat" using vs(2) by (simp add: filled_def)
  have e: "elem mat i j = Inr (mat ! i ! j)" using sh i j by (intro elem_in) (auto simp: shape_def)
  have st: "store mat i j v = Inr (mat[i := (mat ! i)[j := v]])"
    using sh i j by (intro store_in) (auto simp: shape_def)
  show "bindE (elem mat i j) (\<lambda>_.
           case read_int s of
             None \<Rightarrow> Inl LoadFailed
           | Some (v, s') \<Rightarrow> bindE (store mat i j v) (\<lambda>mat'. Inr (mat', s')))
         = Inr (mat[i := (mat ! i)[j := v]], s')"
    by (simp add: e rd st)
  have "read_ints (Suc (i * n + j)) s0 = Some (vs @ [v], s')"
    using vs(1) rd by (rule read_ints_snoc)
  moreover have "filled n (vs @ [v]) i (Suc j) (mat[i := (mat ! i)[j := v]])"
    using vs(2) i j read_ints_length [OF vs(1)] by (rule filled_step)
  ultimately show "rm_inv n s0 i (Suc j) (mat[i := (mat ! i)[j := v]], s')"
    by (auto simp: rm_inv_def)
qed

lemma read_fail:
  assumes inv: "rm_inv n s0 i j (mat, s)" and i: "i < n" and j: "j < n"
    and rd: "read_int s = None"
  shows "bindE (elem mat i j) (\<lambda>_.
           case read_int s of
             None \<Rightarrow> Inl LoadFailed
           | Some (v, s') \<Rightarrow> bindE (store mat i j v) (\<lambda>mat'. Inr (mat', s')))
         = Inl LoadFailed"
proof -
  from inv have sh: "shape n n mat" by (auto simp: rm_inv_def filled_def)
  have e: "elem mat i j = Inr (mat ! i ! j)" using sh i j by (intro elem_in) (auto simp: shape_def)
  show ?thesis by (simp add: e rd)
qed

lemma rm_inv_next_row: "rm_inv n s0 i n st \<Longrightarrow> rm_inv n s0 (Suc i) 0 st"
  by (auto simp: rm_inv_def filled_def less_Suc_eq add.commute)

lemma read_row_partial:
  assumes run: "for_loop 0 n (\<lambda>j (mat, s).
       bindE (elem mat i j) (\<lambda>_.
       case read_int s of
         None \<Rightarrow> Inl LoadFailed
       | Some (v, s') \<Rightarrow> bindE (store mat i j v) (\<lambda>mat'. Inr (mat', s')))) st = Inr st'"
    and inv: "rm_inv n s0 i 0 st" and i: "i < n"
  shows "rm_inv n s0 (Suc i) 0 st'"
proof -
  have "rm_inv n s0 i n st'"
  proof (rule for_loop_partial [OF run, where I = "rm_inv n s0 i"])
    show "rm_inv n s0 i 0 st" by (rule inv)
  next
    show "0 \<le> n" by simp
  next
    fix j u u'
    assume j: "j < n" and u: "rm_inv n s0 i j u"
      and step: "(case u of (mat, s) \<Rightarrow>
       bindE (elem mat i j) (\<lambda>_.
       case read_int s of
         None \<Rightarrow> Inl LoadFailed
       | Some (v, s') \<Rightarrow> bindE (store mat i j v) (\<lambda>mat'. Inr (mat', s')))) = Inr u'"
    obtain mat s where ms: "u = (mat, s)" by (cases u)
    show "rm_inv n s0 i (Suc j) u'"
    proof (cases "read_int s")
      case None
      from read_fail [OF u [unfolded ms] i j None] step ms show ?thesis by simp
    next
      case (Some vs')
      obtain v s' where "vs' = (v, s')" by (cases vs')
      with Some have rd: "read_int s = Some (v, s')" by simp
      from read_step [OF u [unfolded ms] i j rd] step ms show ?thesis by simp
    qed
  qed
  then show ?thesis by (rule rm_inv_next_row)
qed

lemma read_matrix_partial:
  assumes sh: "shape n n M" and run: "read_matrix n M s0 = Inr (M', r)"
  shows "\<exists>vs. read_ints (n * n) s0 = Some (vs, r) \<and> filled n vs n 0 M'"
proof -
  have "rm_inv n s0 n 0 (M', r)"
  proof (rule for_loop_partial [OF run [unfolded read_matrix_def], where I = "\<lambda>i. rm_inv n s0 i 0"])
    show "rm_inv n s0 0 0 (M, s0)" using sh by (simp add: rm_inv_def filled_def)
  next
    show "0 \<le> n" by simp
  next
    fix i u u'
    assume "i < n" "rm_inv n s0 i 0 u"
      "for_loop 0 n (\<lambda>j (mat, s).
       bindE (elem mat i j) (\<lambda>_.
       case read_int s of
         None \<Rightarrow> Inl LoadFailed
       | Some (v, s') \<Rightarrow> bindE (store mat i j v) (\<lambda>mat'. Inr (mat', s')))) u = Inr u'"
    then show "rm_inv n s0 (Suc i) 0 u'" by (intro read_row_partial)
  qed
  then show ?thesis by (simp add: rm_inv_def)
qed

lemma rest_step:
  assumes "rm_rest n r i j (mat, s)" and "i < n" and "j < n"
  shows "\<exists>v s'. read_int s = Some (v, s') \<and> rm_rest n r i (Suc j) (mat', s')"
proof -
  have "n * n - (i * n + j) = Suc (n * n - (i * n + Suc j))"
    using idx_bound [OF assms(2,3)] by simp
  with assms(1) obtain ws where "read_ints (Suc (n * n - (i * n + Suc j))) s = Some (ws, r)"
    by (auto simp: rm_rest_def)
  from read_ints_SucD [OF this] show ?thesis by (auto simp: rm_rest_def)
qed

lemma rm_rest_next_row: "rm_rest n r i n st \<Longrightarrow> rm_rest n r (Suc i) 0 st"
  by (simp add: rm_rest_def add.commute)

lemma read_row_total:
  assumes inv: "rm_inv n s0 i 0 st" "rm_rest n r i 0 st" and i: "i < n"
  shows "\<exists>st'. for_loop 0 n (\<lambda>j (mat, s).
       bindE (elem mat i j) (\<lambda>_.
       case read_int s of
         None \<Rightarrow> Inl LoadFailed
       | Some (v, s') \<Rightarrow> bindE (store mat i j v) (\<lambda>mat'. Inr (mat', s')))) st = Inr st'
     \<and> rm_inv n s0 (Suc i) 0 st' \<and> rm_rest n r (Suc i) 0 st'"
proof -
  have "\<exists>st'. for_loop 0 n (\<lambda>j (mat, s).
       bindE (elem mat i j) (\<lambda>_.
       case read_int s of
         None \<Rightarrow> Inl LoadFailed
       | Some (v, s') \<Rightarrow> bindE (store mat i j v) (\<lambda>mat'. Inr (mat', s')))) st = Inr st'
     \<and> (rm_inv n s0 i n st' \<and> rm_rest n r i n st')"
  proof (rule for_loop_total [where I = "\<lambda>j u. rm_inv n s0 i j u \<and> rm_rest n r i j u"])
    show "rm_inv n s0 i 0 st \<and> rm_rest n r i 0 st" using inv by simp
  next
    show "0 \<le> n" by simp
  next
    fix j u assume j: "j < n" and u: "rm_inv n s0 i j u \<and> rm_rest n r i j u"
    obtain mat s where ms: "u = (mat, s)" by (cases u)
    from rest_step [OF u [THEN conjunct2, unfolded ms] i j, of "mat[i := (mat ! i)[j := v]]" for v]
    have "\<forall>v. \<exists>w s'. read_int s = Some (w, s') \<and> rm_rest n r i (Suc j) (mat[i := (mat ! i)[j := v]], s')"
      by blast
    then obtain v s' where rd: "read_int s = Some (v, s')"
      and rest: "rm_rest n r i (Suc j) (mat[i := (mat ! i)[j := v]], s')"
      by (metis option.inject prod.inject)
    from read_step [OF u [THEN conjunct1, unfolded ms] i j rd] rest ms
    show "\<exists>t'. (case u of (mat, s) \<Rightarrow>
       bindE (elem mat i j) (\<lambda>_.
       case read_int s of
         None \<Rightarrow> Inl LoadFailed
       | Some (v, s') \<Rightarrow> bindE (store mat i j v) (\<lambda>mat'. Inr (mat', s')))) = Inr t'
       \<and> (rm_inv n s0 i (Suc j) t' \<and> rm_rest n r i (Suc j) t')"
      by simp
  qed
  then show ?thesis using rm_inv_next_row rm_rest_next_row by blast
qed

lemma read_matrix_total:
  assumes sh: "shape n n M" and rd: "read_ints (n * n) s0 = Some (vs, r)"
  shows "\<exists>M'. read_matrix n M s0 = Inr (M', r) \<and> filled n vs n 0 M'"
proof -
  have "\<exists>st'. read_matrix n M s0 = Inr st' \<and> (rm_inv n s0 n 0 st' \<and> rm_rest n r n 0 st')"
    unfolding read_matrix_def
  proof (rule for_loop_total [where I = "\<lambda>i u. rm_inv n s0 i 0 u \<and> rm_rest n r i 0 u"])
    show "rm_inv n s0 0 0 (M, s0) \<and> rm_rest n r 0 0 (M, s0)"
      using sh rd by (simp add: rm_inv_def rm_rest_def filled_def)
  next
    show "0 \<le> n" by simp
  next
    fix i u assume "i < n" "rm_inv n s0 i 0 u \<and> rm_rest n r i 0 u"
    then show "\<exists>t'. for_loop 0 n (\<lambda>j (mat, s).
       bindE (elem mat i j) (\<lambda>_.
       case read_int s of
         None \<Rightarrow> Inl LoadFailed
       | Some (v, s') \<Rightarrow> bindE (store mat i j v) (\<lambda>mat'. Inr (mat', s')))) u = Inr t'
      \<and> (rm_inv n s0 (Suc i) 0 t' \<and> rm_rest n r (Suc i) 0 t')"
      by (intro read_row_total) simp_all
  qed
  then obtain M' s' where run: "read_matrix n M s0 = Inr (M', s')"
    and inv: "rm_inv n s0 n 0 (M', s')" and rest: "rm_rest n r n 0 (M', s')" by auto
  have "s' = r" using rest by (simp add: rm_rest_def)
  moreover have "filled n vs n 0 M'" using inv rd \<open>s' = r\<close> by (simp add: rm_inv_def)
  ultimately show ?thesis using run by simp
qed

lemma filled_entries:
  "filled n vs n 0 M \<longleftrightarrow> shape n n M \<and> (\<forall>a<n. \<forall>b<n. M ! a ! b = vs ! (a * n + b))"
  by (auto simp: filled_def)

lemma filled_unique:
  assumes "filled n vs n 0 X" and "filled n vs n 0 Y"
  shows "X = Y"
proof (rule nth_equalityI)
  show "length X = length Y" using assms by (simp add: filled_def shape_def)
next
  fix a assume "a < length X"
  then have a: "a < n" using assms by (simp add: filled_def shape_def)
  show "X ! a = Y ! a"
  proof (rule nth_equalityI)
    show "length (X ! a) = length (Y ! a)" using assms a by (simp add: filled_def shape_def)
  next
    fix b assume "b < length (X ! a)"
    then have "b < n" using assms a by (simp add: filled_def shape_def)
    then show "X ! a ! b = Y ! a ! b" using assms a by (simp add: filled_entries)
  qed
qed

lemma bindE_InrD: "bindE m f = Inr y \<Longrightarrow> \<exists>x. m = Inr x \<and> f x = Inr y"
  by (cases m) simp_all

lemma shape_resize:
  assumes "\<forall>r\<in>set (take n M). length r = n"
  shows "shape n n (resize n (replicate n x) M)"
  unfolding shape_def
proof (intro conjI allI impI)
  show "length (resize n (replicate n x) M) = n" by (simp add: resize_def)
next
  fix i assume i: "i < n"
  show "length (resize n (replicate n x) M ! i) = n"
  proof (cases "i < length M")
    case True
    then have "resize n (replicate n x) M ! i = take n M ! i"
      using i by (simp add: resize_def nth_append)
    moreover have "take n M ! i \<in> set (take n M)" using True i by (intro nth_mem) simp
    ultimately show ?thesis using assms by simp
  next
    case False
    then show ?thesis using i by (simp add: resize_def nth_append)
  qed
qed

lemma loadMatrices_InrD:
  assumes "loadMatrices (Some inp) a b mem = Inr (mem', n)" and ab: "a \<noteq> b"
  shows "\<exists>nw s1 A s2 B s3.
           read_int inp = Some (nw, s1) \<and> n = sint nw \<and> 0 < n \<and>
           read_matrix (nat n) (resize (nat n) (replicate (nat n) 0) (mem a)) s1 = Inr (A, s2) \<and>
           read_matrix (nat n) (resize (nat n) (replicate (nat n) 0) (mem b)) s2 = Inr (B, s3) \<and>
           mem' = mem(a := A, b := B)"
proof (cases "read_int inp")
  case None
  with assms show ?thesis by (simp add: loadMatrices_def)
next
  case (Some p)
  obtain nw s1 where p: "p = (nw, s1)" by (cases p)
  have pos: "0 < sint nw"
    using assms Some p by (auto simp: loadMatrices_def Let_def split: if_splits)
  define N where "N = nat (sint nw)"
  from assms Some p pos have
    "bindE (read_matrix N (resize N (replicate N 0) (mem a)) s1) (\<lambda>(A, inp2).
       bindE (read_matrix N (resize N (replicate N 0) (mem b)) inp2) (\<lambda>(B, inp3).
         Inr (mem(a := A, b := B), sint nw))) = Inr (mem', n)"
    by (simp add: loadMatrices_def Let_def N_def)
  from bindE_InrD [OF this] obtain A s2 where
    1: "read_matrix N (resize N (replicate N 0) (mem a)) s1 = Inr (A, s2)"
    and "bindE (read_matrix N (resize N (replicate N 0) (mem b)) s2) (\<lambda>(B, inp3).
         Inr (mem(a := A, b := B), sint nw)) = Inr (mem', n)" by auto
  from bindE_InrD [OF this(2)] obtain B s3 where
    2: "read_matrix N (resize N (replicate N 0) (mem b)) s2 = Inr (B, s3)"
    and "Inr (mem(a := A, b := B), sint nw) = (Inr (mem', n) :: error + memory \<times> int)" by auto
  then have "mem' = mem(a := A, b := B)" "n = sint nw" by simp_all
  with 1 2 Some p pos show ?thesis unfolding N_def by blast
qed

lemma loadMatrices_InrI:
  assumes "read_int inp = Some (nw, s1)" and "0 < sint nw" and "a \<noteq> b"
    and "read_matrix (nat (sint nw)) (resize (nat (sint nw)) (replicate (nat (sint nw)) 0) (mem a)) s1
           = Inr (A, s2)"
    and "read_matrix (nat (sint nw)) (resize (nat (sint nw)) (replicate (nat (sint nw)) 0) (mem b)) s2
           = Inr (B, s3)"
  shows "loadMatrices (Some inp) a b mem = Inr (mem(a := A, b := B), sint nw)"
  using assms by (simp add: loadMatrices_def Let_def)

lemma addMatrices_doubling:
  assumes "A \<noteq> []" and "shape (length A) (length A) A"
  shows "\<exists>C. addMatrices A A = Inr C \<and> shape (length A) (length A) C \<and>
           (\<forall>i<length A. \<forall>j<length A. C ! i ! j = 2 * A ! i ! j)"
proof -
  from addMatrices_square [OF assms assms(2)] obtain C where
    C: "addMatrices A A = Inr C" "shape (length A) (length A) C"
    and e: "\<forall>i<length A. \<forall>j<length A. C ! i ! j = A ! i ! j + A ! i ! j" by blast
  have "x + x = 2 * x" for x :: cint by simp
  with e have "\<forall>i<length A. \<forall>j<length A. C ! i ! j = 2 * A ! i ! j" by simp
  with C show ?thesis by blast
qed

lemma loadMatrices_Some_true:
  assumes run: "loadMatrices (Some inp) a b mem = Inr (mem', n)" and ab: "a \<noteq> b"
    and rowsA: "\<forall>r\<in>set (take (nat n) (mem a)). length r = nat n"
    and rowsB: "\<forall>r\<in>set (take (nat n) (mem b)). length r = nat n"
  shows "1 \<le> n \<and> shape (nat n) (nat n) (mem' a) \<and> shape (nat n) (nat n) (mem' b) \<and>
     (\<forall>c. c \<noteq> a \<and> c \<noteq> b \<longrightarrow> mem' c = mem c) \<and>
     (\<exists>nw rest vs rest'.
        read_int inp = Some (nw, rest) \<and> sint nw = n \<and>
        read_ints (2 * nat n * nat n) rest = Some (vs, rest') \<and>
        (\<forall>i<nat n. \<forall>j<nat n.
           mem' a ! i ! j = vs ! (i * nat n + j) \<and>
           mem' b ! i ! j = vs ! (nat n * nat n + i * nat n + j)) \<and>
        (\<exists>pre. inp = pre @ rest' \<and>
           (\<forall>extra. stops extra \<longrightarrow>
              loadMatrices (Some (pre @ extra)) a b mem = Inr (mem', n))))"
proof -
  define N where "N = nat n"
  define A0 where "A0 = resize N (replicate N 0) (mem a)"
  define B0 where "B0 = resize N (replicate N 0) (mem b)"
  from loadMatrices_InrD [OF run ab] obtain nw s1 A s2 B s3 where
    nw: "read_int inp = Some (nw, s1)" "n = sint nw" "0 < n"
    and rA: "read_matrix N A0 s1 = Inr (A, s2)"
    and rB: "read_matrix N B0 s2 = Inr (B, s3)"
    and mem': "mem' = mem(a := A, b := B)"
    unfolding N_def A0_def B0_def by blast
  have mA: "mem' a = A" and mB: "mem' b = B" using mem' ab by simp_all
  have frame: "\<forall>c. c \<noteq> a \<and> c \<noteq> b \<longrightarrow> mem' c = mem c" using mem' by simp
  have shA: "shape N N A0" unfolding A0_def using rowsA by (intro shape_resize) (simp add: N_def)
  have shB: "shape N N B0" unfolding B0_def using rowsB by (intro shape_resize) (simp add: N_def)
  from read_matrix_partial [OF shA rA] obtain vsA where
    vsA: "read_ints (N * N) s1 = Some (vsA, s2)" "filled N vsA N 0 A" by blast
  from read_matrix_partial [OF shB rB] obtain vsB where
    vsB: "read_ints (N * N) s2 = Some (vsB, s3)" "filled N vsB N 0 B" by blast
  have lenA: "length vsA = N * N" using vsA(1) by (rule read_ints_length)
  have all: "read_ints (N * N + N * N) s1 = Some (vsA @ vsB, s3)"
    using vsA(1) vsB(1) by (rule read_ints_append)
  have entries: "\<forall>i<N. \<forall>j<N. A ! i ! j = (vsA @ vsB) ! (i * N + j) \<and>
           B ! i ! j = (vsA @ vsB) ! (N * N + i * N + j)"
  proof (intro allI impI)
    fix i j assume ij: "i < N" "j < N"
    have "i * N + j < N * N" using ij by (rule idx_bound)
    then have "(vsA @ vsB) ! (i * N + j) = vsA ! (i * N + j)"
      using lenA by (simp add: nth_append)
    moreover have "(vsA @ vsB) ! (N * N + i * N + j) = vsB ! (i * N + j)"
      using lenA nth_append_length_plus [of vsA vsB "i * N + j"] by (simp add: add.assoc)
    ultimately show "A ! i ! j = (vsA @ vsB) ! (i * N + j) \<and>
           B ! i ! j = (vsA @ vsB) ! (N * N + i * N + j)"
      using vsA(2) vsB(2) ij by (simp add: filled_entries)
  qed
  have "read_ints (Suc (N * N + N * N)) inp = Some (nw # vsA @ vsB, s3)"
    using nw(1) all by simp
  from read_ints_prefix [OF this] obtain pre where
    pre: "inp = pre @ s3"
      "\<forall>t. stops t \<longrightarrow> read_ints (Suc (N * N + N * N)) (pre @ t) = Some (nw # vsA @ vsB, t)"
    by blast
  have again: "loadMatrices (Some (pre @ extra)) a b mem = Inr (mem', n)"
    if "stops extra" for extra
  proof -
    from pre(2) that have
      "read_ints (Suc (N * N + N * N)) (pre @ extra) = Some (nw # vsA @ vsB, extra)" by simp
    from read_ints_SucD [OF this] obtain s1' where
      1: "read_int (pre @ extra) = Some (nw, s1')"
      and 2: "read_ints (N * N + N * N) s1' = Some (vsA @ vsB, extra)" by auto
    from read_ints_split [OF 2] lenA obtain s2' where
      3: "read_ints (N * N) s1' = Some (vsA, s2')" and 4: "read_ints (N * N) s2' = Some (vsB, extra)"
      by auto
    from read_matrix_total [OF shA 3] obtain A' where
      A': "read_matrix N A0 s1' = Inr (A', s2')" "filled N vsA N 0 A'" by blast
    from read_matrix_total [OF shB 4] obtain B' where
      B': "read_matrix N B0 s2' = Inr (B', extra)" "filled N vsB N 0 B'" by blast
    have "A' = A" using A'(2) vsA(2) by (rule filled_unique)
    moreover have "B' = B" using B'(2) vsB(2) by (rule filled_unique)
    ultimately show ?thesis
      using loadMatrices_InrI [of "pre @ extra" nw s1' a b mem A s2' B extra]
        1 A'(1) B'(1) nw(2,3) ab mem'
      by (simp add: N_def A0_def B0_def)
  qed
  have twice: "2 * N * N = N * N + N * N" by simp
  have all2: "read_ints (2 * N * N) s1 = Some (vsA @ vsB, s3)"
    unfolding twice by (rule all)
  have "shape N N (mem' a)" "shape N N (mem' b)"
    using vsA(2) vsB(2) mA mB by (simp_all add: filled_def)
  moreover have "1 \<le> n" using nw(3) by simp
  moreover have "\<exists>pre. inp = pre @ s3 \<and>
           (\<forall>extra. stops extra \<longrightarrow>
              loadMatrices (Some (pre @ extra)) a b mem = Inr (mem', n))"
    using pre(1) again by blast
  moreover have "\<forall>i<N. \<forall>j<N. mem' a ! i ! j = (vsA @ vsB) ! (i * N + j) \<and>
           mem' b ! i ! j = (vsA @ vsB) ! (N * N + i * N + j)"
    using entries mA mB by simp
  ultimately show ?thesis
    using nw(1,2) all2 frame unfolding N_def by blast
qed

lemma seen_InrD:
  "seen a b res = Inr (A, B, n) \<Longrightarrow> \<exists>mem'. res = Inr (mem', n) \<and> mem' a = A \<and> mem' b = B"
  by (cases res) (auto simp: seen_def)

section \<open>Claims\<close>

subsection \<open>C1: the product\<close>

text \<open>
  C1. For a non-empty rectangular \<open>A\<close> and a rectangular \<open>B\<close> with at least one row
  whose height is the width of \<open>A\<close>, \<^verbatim>\<open>multiplyMatrices\<close> returns a matrix \<open>C\<close>
  with the height of \<open>A\<close> and the width of \<open>B\<close>, and
  \<open>C[i][j] = \<Sum>k<width A. A[i][k] * B[k][j]\<close> in the arithmetic of \<^verbatim>\<open>int\<close>; the
  result starts as zeros and the arguments are only read. C1 asks this for every
  \<open>B\<close>; for \<open>A = [[]]\<close> (one row, no column) and \<open>B = []\<close> the premises of C1 hold
  and the function returns no matrix: it stops at the read of \<^verbatim>\<open>matrixB[0]\<close>.
\<close>

theorem multiplyMatrices_product:
  "(A \<noteq> [] \<and> B \<noteq> [] \<and> rectangular A \<and> rectangular B \<and> width A = length B \<longrightarrow>
      (\<exists>C. multiplyMatrices A B = Inr C \<and> shape (length A) (width B) C \<and>
         (\<forall>i<length A. \<forall>j<width B. C ! i ! j = (\<Sum>k<width A. A ! i ! k * B ! k ! j)))) \<and>
   ([[]] :: Matrix) \<noteq> [] \<and> rectangular ([[]] :: Matrix) \<and> rectangular ([] :: Matrix) \<and>
   width ([[]] :: Matrix) = length ([] :: Matrix) \<and>
   multiplyMatrices [[]] [] = Inl OutOfBounds"
proof (intro conjI impI)
  assume "A \<noteq> [] \<and> B \<noteq> [] \<and> rectangular A \<and> rectangular B \<and> width A = length B"
  then show "\<exists>C. multiplyMatrices A B = Inr C \<and> shape (length A) (width B) C \<and>
         (\<forall>i<length A. \<forall>j<width B. C ! i ! j = (\<Sum>k<width A. A ! i ! k * B ! k ! j))"
    by (intro multiplyMatrices_rectangular) simp_all
next
  show "multiplyMatrices [[]] [] = Inl OutOfBounds"
    by (simp add: multiplyMatrices_def row_def)
qed (simp_all add: rectangular_def width_def)

theorem multiplyMatrices_product_witness:
  "(\<exists>C. multiplyMatrices [[1, 2], [3, 4]] [[5, 6], [7, 8]] = Inr C \<and> shape 2 2 C \<and>
      C ! 0 ! 0 = 19 \<and> C ! 0 ! 1 = 22 \<and> C ! 1 ! 0 = 43 \<and> C ! 1 ! 1 = 50) \<and>
   multiplyMatrices [[]] [] = Inl OutOfBounds"
proof
  let ?A = "[[1, 2], [3, 4 :: cint]]" and ?B = "[[5, 6], [7, 8 :: cint]]"
  have prem: "?A \<noteq> [] \<and> ?B \<noteq> [] \<and> rectangular ?A \<and> rectangular ?B \<and> width ?A = length ?B"
    by (simp add: rectangular_def width_def)
  have dims: "length ?A = 2" "width ?A = 2" "width ?B = 2" by (simp_all add: width_def)
  from multiplyMatrices_product [of ?A ?B, THEN conjunct1, THEN mp, OF prem]
  obtain C where C: "multiplyMatrices ?A ?B = Inr C" "shape (length ?A) (width ?B) C"
    and e: "\<forall>i<length ?A. \<forall>j<width ?B. C ! i ! j = (\<Sum>k<width ?A. ?A ! i ! k * ?B ! k ! j)"
    by blast
  have s: "(\<Sum>k<2. f k) = f 0 + f 1" for f :: "nat \<Rightarrow> cint"
    by (simp add: numeral_2_eq_2)
  have e': "C ! i ! j = ?A ! i ! 0 * ?B ! 0 ! j + ?A ! i ! 1 * ?B ! 1 ! j" if "i < 2" "j < 2" for i j
    using e that unfolding dims by (simp add: s)
  have "C ! 0 ! 0 = 19" "C ! 0 ! 1 = 22" "C ! 1 ! 0 = 43" "C ! 1 ! 1 = 50"
    using e' [of 0 0] e' [of 0 1] e' [of 1 0] e' [of 1 1] by simp_all
  moreover have "shape 2 2 C" using C(2) unfolding dims .
  ultimately show "\<exists>C. multiplyMatrices ?A ?B = Inr C \<and> shape 2 2 C \<and>
      C ! 0 ! 0 = 19 \<and> C ! 0 ! 1 = 22 \<and> C ! 1 ! 0 = 43 \<and> C ! 1 ! 1 = 50"
    using C(1) by (intro exI [of _ C]) simp
next
  show "multiplyMatrices [[]] [] = Inl OutOfBounds"
    by (rule multiplyMatrices_product [of "[]" "[]", THEN conjunct2, THEN conjunct2,
          THEN conjunct2, THEN conjunct2, THEN conjunct2])
qed

subsection \<open>C2: the sum\<close>

text \<open>
  C2. For non-empty square matrices \<open>A\<close> and \<open>B\<close> of the same size,
  \<^verbatim>\<open>addMatrices\<close> returns the matrix of the sums \<open>A[i][j] + B[i][j]\<close>, and
  \<^verbatim>\<open>addMatrices(A, A)\<close> doubles every element; the arguments are only read. C2 asks
  the same for rectangular matrices that are not square: for the \<open>1 \<times> 2\<close> matrices
  \<open>[[1,2]]\<close> and \<open>[[3,4]]\<close> the function returns the \<open>1 \<times> 1\<close> matrix \<open>[[4]]\<close>, and
  for the \<open>2 \<times> 1\<close> matrices \<open>[[1],[2]]\<close> and \<open>[[3],[4]]\<close> it reads
  \<^verbatim>\<open>matrixA[0][1]\<close>, outside the row.
\<close>

theorem addMatrices_sum:
  "(A \<noteq> [] \<and> shape (length A) (length A) A \<and> shape (length A) (length A) B \<longrightarrow>
      (\<exists>C. addMatrices A B = Inr C \<and> shape (length A) (length A) C \<and>
         (\<forall>i<length A. \<forall>j<length A. C ! i ! j = A ! i ! j + B ! i ! j))) \<and>
   (A \<noteq> [] \<and> shape (length A) (length A) A \<longrightarrow>
      (\<exists>C. addMatrices A A = Inr C \<and> shape (length A) (length A) C \<and>
         (\<forall>i<length A. \<forall>j<length A. C ! i ! j = 2 * A ! i ! j))) \<and>
   addMatrices [[1, 2]] [[3, 4]] = Inr [[4]] \<and>
   addMatrices [[1], [2]] [[3], [4]] = Inl OutOfBounds"
proof (intro conjI impI)
  assume "A \<noteq> [] \<and> shape (length A) (length A) A \<and> shape (length A) (length A) B"
  then show "\<exists>C. addMatrices A B = Inr C \<and> shape (length A) (length A) C \<and>
         (\<forall>i<length A. \<forall>j<length A. C ! i ! j = A ! i ! j + B ! i ! j)"
    by (intro addMatrices_square) simp_all
next
  assume "A \<noteq> [] \<and> shape (length A) (length A) A"
  then show "\<exists>C. addMatrices A A = Inr C \<and> shape (length A) (length A) C \<and>
         (\<forall>i<length A. \<forall>j<length A. C ! i ! j = 2 * A ! i ! j)"
    by (intro addMatrices_doubling) simp_all
next
  show "addMatrices [[1, 2]] [[3, 4]] = Inr [[4]]" by code_simp
next
  show "addMatrices [[1], [2]] [[3], [4]] = Inl OutOfBounds" by code_simp
qed

theorem addMatrices_sum_witness:
  "(\<exists>C. addMatrices [[1, 2], [3, 4]] [[5, 6], [7, 8]] = Inr C \<and> shape 2 2 C \<and>
      C ! 0 ! 0 = 6 \<and> C ! 0 ! 1 = 8 \<and> C ! 1 ! 0 = 10 \<and> C ! 1 ! 1 = 12) \<and>
   (\<exists>C. addMatrices [[1, 2], [3, 4]] [[1, 2], [3, 4]] = Inr C \<and> shape 2 2 C \<and>
      C ! 0 ! 0 = 2 \<and> C ! 0 ! 1 = 4 \<and> C ! 1 ! 0 = 6 \<and> C ! 1 ! 1 = 8) \<and>
   addMatrices [[1, 2]] [[3, 4]] = Inr [[4]]"
proof (intro conjI)
  let ?A = "[[1, 2], [3, 4 :: cint]]" and ?B = "[[5, 6], [7, 8 :: cint]]"
  have len: "length ?A = 2" by simp
  have sh: "shape (length ?A) (length ?A) ?A" "shape (length ?A) (length ?A) ?B"
    by (simp_all add: shape_def less_Suc_eq)
  have prem: "?A \<noteq> [] \<and> shape (length ?A) (length ?A) ?A \<and> shape (length ?A) (length ?A) ?B"
    using sh by simp
  from addMatrices_sum [of ?A ?B, THEN conjunct1, THEN mp, OF prem]
  obtain C where C: "addMatrices ?A ?B = Inr C" "shape (length ?A) (length ?A) C"
    and e: "\<forall>i<length ?A. \<forall>j<length ?A. C ! i ! j = ?A ! i ! j + ?B ! i ! j"
    by blast
  have e': "C ! i ! j = ?A ! i ! j + ?B ! i ! j" if "i < 2" "j < 2" for i j
    using e that unfolding len by simp
  have "C ! 0 ! 0 = 6" "C ! 0 ! 1 = 8" "C ! 1 ! 0 = 10" "C ! 1 ! 1 = 12"
    using e' [of 0 0] e' [of 0 1] e' [of 1 0] e' [of 1 1] by simp_all
  moreover have "shape 2 2 C" using C(2) unfolding len .
  ultimately show "\<exists>C. addMatrices ?A ?B = Inr C \<and> shape 2 2 C \<and>
      C ! 0 ! 0 = 6 \<and> C ! 0 ! 1 = 8 \<and> C ! 1 ! 0 = 10 \<and> C ! 1 ! 1 = 12"
    using C(1) by (intro exI [of _ C]) simp
  have prem2: "?A \<noteq> [] \<and> shape (length ?A) (length ?A) ?A" using sh by simp
  from addMatrices_sum [of ?A ?A, THEN conjunct2, THEN conjunct1, THEN mp, OF prem2]
  obtain D where D: "addMatrices ?A ?A = Inr D" "shape (length ?A) (length ?A) D"
    and d: "\<forall>i<length ?A. \<forall>j<length ?A. D ! i ! j = 2 * ?A ! i ! j"
    by blast
  have d': "D ! i ! j = 2 * ?A ! i ! j" if "i < 2" "j < 2" for i j
    using d that unfolding len by simp
  have "D ! 0 ! 0 = 2" "D ! 0 ! 1 = 4" "D ! 1 ! 0 = 6" "D ! 1 ! 1 = 8"
    using d' [of 0 0] d' [of 0 1] d' [of 1 0] d' [of 1 1] by simp_all
  moreover have "shape 2 2 D" using D(2) unfolding len .
  ultimately show "\<exists>C. addMatrices ?A ?A = Inr C \<and> shape 2 2 C \<and>
      C ! 0 ! 0 = 2 \<and> C ! 0 ! 1 = 4 \<and> C ! 1 ! 0 = 6 \<and> C ! 1 ! 1 = 8"
    using D(1) by (intro exI [of _ D]) simp
  show "addMatrices [[1, 2]] [[3, 4]] = Inr [[4]]"
    by (rule addMatrices_sum [of "[]" "[]", THEN conjunct2, THEN conjunct2, THEN conjunct1])
qed

subsection \<open>C3: when the dimension error is raised\<close>

text \<open>
  C3. \<^verbatim>\<open>addMatrices\<close> throws the dimension error exactly when \<open>A\<close> is empty, the
  heights differ or the widths of the first rows differ; \<^verbatim>\<open>multiplyMatrices\<close> throws
  it exactly when \<open>A\<close> is empty or the width of \<open>A\<close> differs from the height of
  \<open>B\<close>. A thrown error is a result \<open>Inl\<close>: no matrix is produced.
\<close>

theorem dimension_mismatch_exactly:
  "(addMatrices A B = Inl DimensionMismatch \<longleftrightarrow>
      A = [] \<or> length A \<noteq> length B \<or> width A \<noteq> width B) \<and>
   (multiplyMatrices A B = Inl DimensionMismatch \<longleftrightarrow> A = [] \<or> width A \<noteq> length B)"
  by (simp only: addMatrices_mismatch_iff multiplyMatrices_mismatch_iff)

theorem dimension_mismatch_exactly_witness:
  "addMatrices [[1, 2], [3, 4]] [[5, 6]] = Inl DimensionMismatch \<and>
   multiplyMatrices [[1, 2], [3, 4]] [[5, 6]] = Inl DimensionMismatch \<and>
   addMatrices [[1, 2], [3, 4]] [[5, 6], [7, 8]] \<noteq> Inl DimensionMismatch \<and>
   multiplyMatrices [[1, 2], [3, 4]] [[5, 6], [7, 8]] \<noteq> Inl DimensionMismatch"
  using dimension_mismatch_exactly [of "[[1, 2], [3, 4]]" "[[5, 6]]"]
    dimension_mismatch_exactly [of "[[1, 2], [3, 4]]" "[[5, 6], [7, 8]]"]
  by (simp add: width_def)

subsection \<open>C4: the diagonal sums\<close>

text \<open>
  C4. For a non-empty square matrix \<open>M\<close> (whose height fits an \<^verbatim>\<open>int\<close>)
  \<^verbatim>\<open>sumDiagonals\<close> prints two 64-bit sums whose values are the exact integer sums
  \<open>\<Sum>i<n. M[i][i]\<close> and \<open>\<Sum>i<n. M[i][n-1-i]\<close> of the 32-bit elements: the accumulators do
  not overflow. For an empty matrix, or one whose height differs from its width, it
  prints the error and computes nothing. The function only reads \<open>M\<close>.
\<close>

theorem sumDiagonals_sums:
  "(M \<noteq> [] \<and> rectangular M \<and> width M = length M \<and> length M < 2 ^ 31 \<longrightarrow>
      (\<exists>mainSum secondarySum.
         sumDiagonals M = Inr (DiagonalSums mainSum secondarySum) \<and>
         sint mainSum = (\<Sum>i<length M. sint (M ! i ! i)) \<and>
         sint secondarySum = (\<Sum>i<length M. sint (M ! i ! (length M - 1 - i))))) \<and>
   (M = [] \<or> length M \<noteq> width M \<longrightarrow> sumDiagonals M = Inr NotSquare)"
proof (intro conjI impI)
  assume a: "M \<noteq> [] \<and> rectangular M \<and> width M = length M \<and> length M < 2 ^ 31"
  then have "\<forall>r \<in> set M. length r = length M" by (simp add: rectangular_def)
  with a show "\<exists>mainSum secondarySum.
         sumDiagonals M = Inr (DiagonalSums mainSum secondarySum) \<and>
         sint mainSum = (\<Sum>i<length M. sint (M ! i ! i)) \<and>
         sint secondarySum = (\<Sum>i<length M. sint (M ! i ! (length M - 1 - i)))"
    by (intro sumDiagonals_square) simp_all
next
  assume "M = [] \<or> length M \<noteq> width M"
  then show "sumDiagonals M = Inr NotSquare" by (rule sumDiagonals_not_square)
qed

theorem sumDiagonals_sums_witness:
  "(\<exists>mainSum secondarySum.
      sumDiagonals [[1, 2], [3, 4]] = Inr (DiagonalSums mainSum secondarySum) \<and>
      sint mainSum = 5 \<and> sint secondarySum = 5) \<and>
   sumDiagonals [[1, 2, 3], [4, 5, 6]] = Inr NotSquare"
proof
  have "\<exists>mainSum secondarySum.
         sumDiagonals [[1, 2], [3, 4]] = Inr (DiagonalSums mainSum secondarySum) \<and>
         sint mainSum = (\<Sum>i<length [[1, 2], [3, 4 :: cint]]. sint ([[1, 2], [3, 4 :: cint]] ! i ! i)) \<and>
         sint secondarySum = (\<Sum>i<length [[1, 2], [3, 4 :: cint]].
            sint ([[1, 2], [3, 4 :: cint]] ! i ! (length [[1, 2], [3, 4 :: cint]] - 1 - i)))"
    using sumDiagonals_sums [of "[[1, 2], [3, 4]]"]
    by (simp add: rectangular_def width_def)
  then show "\<exists>mainSum secondarySum.
      sumDiagonals [[1, 2], [3, 4]] = Inr (DiagonalSums mainSum secondarySum) \<and>
      sint mainSum = 5 \<and> sint secondarySum = 5"
    by (simp add: lessThan_Suc numeral_2_eq_2)
next
  show "sumDiagonals [[1, 2, 3], [4, 5, 6]] = Inr NotSquare"
    using sumDiagonals_sums [of "[[1, 2, 3], [4, 5, 6]]"] by (simp add: width_def)
qed

subsection \<open>C5: the mutators refuse indices out of range\<close>

text \<open>
  C5. When the matrix is empty or an index is outside \<open>[0, height)\<close> (rows) or
  \<open>[0, width)\<close> (columns), each of \<^verbatim>\<open>swapRows\<close>, \<^verbatim>\<open>swapCols\<close> and
  \<^verbatim>\<open>updateElement\<close> prints a diagnostic and leaves the matrix as it was.
\<close>

theorem mutators_refuse_out_of_range:
  "(M = [] \<or> r1 < 0 \<or> int (length M) \<le> r1 \<or> r2 < 0 \<or> int (length M) \<le> r2 \<longrightarrow>
      (\<exists>d. swapRows M r1 r2 = (M, Some d))) \<and>
   (M = [] \<or> c1 < 0 \<or> int (width M) \<le> c1 \<or> c2 < 0 \<or> int (width M) \<le> c2 \<longrightarrow>
      (\<exists>d. swapCols M c1 c2 = Inr (M, Some d))) \<and>
   (M = [] \<or> r < 0 \<or> int (length M) \<le> r \<or> c < 0 \<or> int (width M) \<le> c \<longrightarrow>
      (\<exists>d. updateElement M r c v = Inr (M, Some d)))"
  using swapRows_refuses [of M r1 r2] swapCols_refuses [of M c1 c2]
    updateElement_refuses [of M r c v]
  by blast

theorem mutators_refuse_out_of_range_witness:
  "(\<exists>d. swapRows [[1, 2], [3, 4]] 0 2 = ([[1, 2], [3, 4]], Some d)) \<and>
   (\<exists>d. swapCols [[1, 2], [3, 4]] (- 1) 0 = Inr ([[1, 2], [3, 4]], Some d)) \<and>
   (\<exists>d. updateElement [[1, 2], [3, 4]] 1 2 9 = Inr ([[1, 2], [3, 4]], Some d))"
  using mutators_refuse_out_of_range [of "[[1, 2], [3, 4]]" 0 2 "- 1" 0 1 2 9]
  by (simp add: width_def)

subsection \<open>C6: swapping twice\<close>



subsection \<open>C7: the frame of an update\<close>



subsection \<open>C8: the concrete scenario\<close>

text \<open>
  C8 (as amended). For \<open>A = [[1,2],[3,4]]\<close> and \<open>B = [[5,6],[7,8]]\<close>:
  \<^verbatim>\<open>addMatrices\<close> gives \<open>[[6,8],[10,12]]\<close>, \<^verbatim>\<open>multiplyMatrices\<close> gives
  \<open>[[19,22],[43,50]]\<close>, and \<^verbatim>\<open>sumDiagonals\<close> of \<open>A\<close> prints main diagonal sum
  \<open>1 + 4 = 5\<close> and secondary diagonal sum \<open>2 + 3 = 5\<close>.
\<close>

theorem concrete_scenario:
  "addMatrices [[1, 2], [3, 4]] [[5, 6], [7, 8]] = Inr [[6, 8], [10, 12]] \<and>
   multiplyMatrices [[1, 2], [3, 4]] [[5, 6], [7, 8]] = Inr [[19, 22], [43, 50]] \<and>
   sumDiagonals [[1, 2], [3, 4]] = Inr (DiagonalSums 5 5)"
  by code_simp

theorem concrete_scenario_witness:
  "sumDiagonals [[1, 2], [3, 4]] = Inr (DiagonalSums 5 5)"
  using concrete_scenario by (rule conjunct2 [THEN conjunct2])

text \<open>
  C8 as stated asks for the secondary diagonal sum 4; the three equations of the
  scenario do not hold together.
\<close>

theorem concrete_scenario_counterexample:
  "\<not> (addMatrices [[1, 2], [3, 4]] [[5, 6], [7, 8]] = Inr [[6, 8], [10, 12]] \<and>
      multiplyMatrices [[1, 2], [3, 4]] [[5, 6], [7, 8]] = Inr [[19, 22], [43, 50]] \<and>
      sumDiagonals [[1, 2], [3, 4]] = Inr (DiagonalSums 5 4))"
  by code_simp

subsection \<open>C9: the first row of B\<close>

text \<open>
  C9 asks that the read of \<^verbatim>\<open>matrixB[0]\<close> is in bounds whenever the dimension check
  passes. For \<open>A = [[]]\<close> and \<open>B = []\<close> the check passes (no dimension error), the
  row \<open>0\<close> of \<open>B\<close> does not exist, and the function stops there.
\<close>

theorem multiplyMatrices_reads_missing_row:
  "multiplyMatrices [[]] [] \<noteq> Inl DimensionMismatch \<and>
   row ([] :: Matrix) 0 = Inl OutOfBounds \<and>
   multiplyMatrices [[]] [] = Inl OutOfBounds"
  by (simp add: multiplyMatrices_def row_def)

theorem multiplyMatrices_reads_missing_row_witness:
  "multiplyMatrices [[]] [] = Inl OutOfBounds"
  using multiplyMatrices_reads_missing_row by (rule conjunct2 [THEN conjunct2])

subsection \<open>C10: a successful load\<close>

text \<open>
  C10. When \<^verbatim>\<open>loadMatrices\<close> returns \<^verbatim>\<open>true\<close>, the two arguments are distinct objects
  and the rows that \<^verbatim>\<open>resize\<close> keeps (the first \<open>n\<close> rows each matrix held on entry,
  none when it was empty, as in \<^verbatim>\<open>main\<close>) have length \<open>n\<close>, then \<open>n \<ge> 1\<close>, both
  matrices are \<open>n \<times> n\<close>, they hold, row by row, the first \<open>2 * n * n\<close> integers that
  follow the size in the file, and no other object changes. What follows the last of
  these integers is not read: replacing it by any text that does not begin with a
  digit gives the same result. C10 asks this of every call that returns \<^verbatim>\<open>true\<close>.
  With \<open>matrixA = [[7,7,7]]\<close> on entry and the file \<open>1 5 6\<close> the load returns
  \<^verbatim>\<open>true\<close> with \<open>n = 1\<close> and \<open>matrixA = [[5,7,7]]\<close>, which is not \<open>1 \<times> 1\<close>; with
  \<open>matrixA = [[]]\<close> it writes \<^verbatim>\<open>matrixA[0][0]\<close> outside the row; and when the same
  object is passed for both arguments it ends with both equal to the second block.
\<close>

theorem loadMatrices_true:
  "(loadMatrices file a b mem = Inr (mem', n) \<and> a \<noteq> b \<and>
    (\<forall>r\<in>set (take (nat n) (mem a)). length r = nat n) \<and>
    (\<forall>r\<in>set (take (nat n) (mem b)). length r = nat n) \<longrightarrow>
      1 \<le> n \<and> shape (nat n) (nat n) (mem' a) \<and> shape (nat n) (nat n) (mem' b) \<and>
      (\<forall>c. c \<noteq> a \<and> c \<noteq> b \<longrightarrow> mem' c = mem c) \<and>
      (\<exists>inp nw rest vs rest'.
         file = Some inp \<and> read_int inp = Some (nw, rest) \<and> sint nw = n \<and>
         read_ints (2 * nat n * nat n) rest = Some (vs, rest') \<and>
         (\<forall>i<nat n. \<forall>j<nat n.
            mem' a ! i ! j = vs ! (i * nat n + j) \<and>
            mem' b ! i ! j = vs ! (nat n * nat n + i * nat n + j)) \<and>
         (\<exists>pre. inp = pre @ rest' \<and>
            (\<forall>extra. stops extra \<longrightarrow>
               loadMatrices (Some (pre @ extra)) a b mem = Inr (mem', n))))) \<and>
   seen 0 1 (loadMatrices (Some ''1 5 6'') 0 1 ((\<lambda>_. [])(0 := [[7, 7, 7]])))
     = Inr ([[5, 7, 7]], [[6]], 1) \<and>
   \<not> shape (nat 1) (nat 1) [[5, 7, 7 :: cint]] \<and>
   seen 0 1 (loadMatrices (Some ''1 5 6'') 0 1 ((\<lambda>_. [])(0 := [[]]))) = Inl OutOfBounds \<and>
   seen 0 0 (loadMatrices (Some ''1 5 6'') 0 0 (\<lambda>_. [])) = Inr ([[6]], [[6]], 1)"
proof -
  have pos: "loadMatrices file a b mem = Inr (mem', n) \<and> a \<noteq> b \<and>
    (\<forall>r\<in>set (take (nat n) (mem a)). length r = nat n) \<and>
    (\<forall>r\<in>set (take (nat n) (mem b)). length r = nat n) \<longrightarrow>
      1 \<le> n \<and> shape (nat n) (nat n) (mem' a) \<and> shape (nat n) (nat n) (mem' b) \<and>
      (\<forall>c. c \<noteq> a \<and> c \<noteq> b \<longrightarrow> mem' c = mem c) \<and>
      (\<exists>inp nw rest vs rest'.
         file = Some inp \<and> read_int inp = Some (nw, rest) \<and> sint nw = n \<and>
         read_ints (2 * nat n * nat n) rest = Some (vs, rest') \<and>
         (\<forall>i<nat n. \<forall>j<nat n.
            mem' a ! i ! j = vs ! (i * nat n + j) \<and>
            mem' b ! i ! j = vs ! (nat n * nat n + i * nat n + j)) \<and>
         (\<exists>pre. inp = pre @ rest' \<and>
            (\<forall>extra. stops extra \<longrightarrow>
               loadMatrices (Some (pre @ extra)) a b mem = Inr (mem', n))))"
  proof
    assume a: "loadMatrices file a b mem = Inr (mem', n) \<and> a \<noteq> b \<and>
      (\<forall>r\<in>set (take (nat n) (mem a)). length r = nat n) \<and>
      (\<forall>r\<in>set (take (nat n) (mem b)). length r = nat n)"
    show "1 \<le> n \<and> shape (nat n) (nat n) (mem' a) \<and> shape (nat n) (nat n) (mem' b) \<and>
      (\<forall>c. c \<noteq> a \<and> c \<noteq> b \<longrightarrow> mem' c = mem c) \<and>
      (\<exists>inp nw rest vs rest'.
         file = Some inp \<and> read_int inp = Some (nw, rest) \<and> sint nw = n \<and>
         read_ints (2 * nat n * nat n) rest = Some (vs, rest') \<and>
         (\<forall>i<nat n. \<forall>j<nat n.
            mem' a ! i ! j = vs ! (i * nat n + j) \<and>
            mem' b ! i ! j = vs ! (nat n * nat n + i * nat n + j)) \<and>
         (\<exists>pre. inp = pre @ rest' \<and>
            (\<forall>extra. stops extra \<longrightarrow>
               loadMatrices (Some (pre @ extra)) a b mem = Inr (mem', n))))"
    proof (cases "file")
      case None
      with a show ?thesis by (simp add: loadMatrices_def)
    next
      case (Some inp)
      have run: "loadMatrices (Some inp) a b mem = Inr (mem', n)" using a Some by simp
      from loadMatrices_Some_true [OF run] a Some show ?thesis by blast
    qed
  qed
  have e1: "seen 0 1 (loadMatrices (Some ''1 5 6'') 0 1 ((\<lambda>_. [])(0 := [[7, 7, 7]])))
     = Inr ([[5, 7, 7]], [[6]], 1)" by code_simp
  have e2: "\<not> shape (nat 1) (nat 1) [[5, 7, 7 :: cint]]" by (simp add: shape_def)
  have e3: "seen 0 1 (loadMatrices (Some ''1 5 6'') 0 1 ((\<lambda>_. [])(0 := [[]]))) = Inl OutOfBounds"
    by code_simp
  have e4: "seen 0 0 (loadMatrices (Some ''1 5 6'') 0 0 (\<lambda>_. [])) = Inr ([[6]], [[6]], 1)"
    by code_simp
  show ?thesis
    by (rule conjI [OF pos conjI [OF e1 conjI [OF e2 conjI [OF e3 e4]]]])
qed

theorem loadMatrices_true_witness:
  "\<exists>mem'. loadMatrices (Some ''2 1 2 3 4 5 6 7 8 rest'') 0 1 (\<lambda>_. []) = Inr (mem', 2) \<and>
      mem' 0 = [[1, 2], [3, 4]] \<and> mem' 1 = [[5, 6], [7, 8]] \<and>
      shape (nat 2) (nat 2) (mem' 0) \<and> shape (nat 2) (nat 2) (mem' 1) \<and>
      (\<exists>pre rest'. ''2 1 2 3 4 5 6 7 8 rest'' = pre @ rest' \<and>
         (\<forall>extra. stops extra \<longrightarrow>
            loadMatrices (Some (pre @ extra)) 0 1 (\<lambda>_. []) = Inr (mem', 2)))"
proof -
  let ?inp = "''2 1 2 3 4 5 6 7 8 rest''"
  have "seen 0 1 (loadMatrices (Some ?inp) 0 1 (\<lambda>_. []))
          = Inr ([[1, 2], [3, 4]], [[5, 6], [7, 8]], 2)"
    by code_simp
  from seen_InrD [OF this] obtain mem' where
    run: "loadMatrices (Some ?inp) 0 1 (\<lambda>_. []) = Inr (mem', 2)"
    and mA: "mem' 0 = [[1, 2], [3, 4]]" and mB: "mem' 1 = [[5, 6], [7, 8]]" by blast
  have prem: "loadMatrices (Some ?inp) 0 1 (\<lambda>_. []) = Inr (mem', 2) \<and> (0 :: nat) \<noteq> 1 \<and>
    (\<forall>r\<in>set (take (nat 2) ((\<lambda>_. [] :: Matrix) (0 :: nat))). length r = nat 2) \<and>
    (\<forall>r\<in>set (take (nat 2) ((\<lambda>_. [] :: Matrix) (1 :: nat))). length r = nat 2)"
    using run by simp
  have concl: "1 \<le> (2 :: int) \<and> shape (nat 2) (nat 2) (mem' 0) \<and> shape (nat 2) (nat 2) (mem' 1) \<and>
      (\<forall>c. c \<noteq> 0 \<and> c \<noteq> 1 \<longrightarrow> mem' c = []) \<and>
      (\<exists>inp nw rest vs rest'.
         Some ?inp = Some inp \<and> read_int inp = Some (nw, rest) \<and> sint nw = 2 \<and>
         read_ints (2 * nat 2 * nat 2) rest = Some (vs, rest') \<and>
         (\<forall>i<nat 2. \<forall>j<nat 2.
            mem' 0 ! i ! j = vs ! (i * nat 2 + j) \<and>
            mem' 1 ! i ! j = vs ! (nat 2 * nat 2 + i * nat 2 + j)) \<and>
         (\<exists>pre. inp = pre @ rest' \<and>
            (\<forall>extra. stops extra \<longrightarrow>
               loadMatrices (Some (pre @ extra)) 0 1 (\<lambda>_. []) = Inr (mem', 2))))"
    by (rule loadMatrices_true [THEN conjunct1, THEN mp, OF prem])
  then obtain inp rest' pre where
    "Some ?inp = Some inp" "inp = pre @ rest'"
    "\<forall>extra. stops extra \<longrightarrow> loadMatrices (Some (pre @ extra)) 0 1 (\<lambda>_. []) = Inr (mem', 2)"
    by blast
  then have "\<exists>pre rest'. ?inp = pre @ rest' \<and>
         (\<forall>extra. stops extra \<longrightarrow>
            loadMatrices (Some (pre @ extra)) 0 1 (\<lambda>_. []) = Inr (mem', 2))"
    by blast
  with run mA mB concl show ?thesis by blast
qed

end
